theory Spec2Isabelle
  imports Main
begin

section \<open>JavaScript strings and the runtime\<close>

text \<open>
  A JavaScript string is a sequence of UTF-16 code units. A code unit is modelled as a
  natural number; \<open>js\<close> turns an ASCII literal into such a sequence.
\<close>

type_synonym jschar = nat
type_synonym jsstring = "jschar list"

definition js :: "string \<Rightarrow> jsstring" where
  "js s = map of_char s"

text \<open>The exceptions the runtime functions used by the parser can raise.\<close>

datatype exn = TypeError | RangeError | InvalidCharacterError

text \<open>
  \<open>try { body } catch (_) { handler }\<close>: the handler runs exactly when the body raised.
\<close>

definition try_catch :: "exn + 'a \<Rightarrow> (exn \<Rightarrow> exn + 'a) \<Rightarrow> exn + 'a" where
  "try_catch body handler = (case body of Inl e \<Rightarrow> handler e | Inr v \<Rightarrow> Inr v)"

text \<open>
  The functions of the JavaScript runtime that the parser calls and that are not part of the
  repository: \<open>atob\<close>, \<open>new TextDecoder('utf-8', {fatal: false}).decode\<close>,
  \<open>new TextDecoder(label, {fatal: false})\<close> (which raises a RangeError on an unknown label),
  \<open>String.prototype.toLowerCase\<close> on a string with a code unit outside ASCII (the Unicode
  case tables), and the code unit of \<open>String.fromCharCode(parseInt(n, 10))\<close> for a digit
  string \<open>n\<close> of value \<open>2 ^ 53\<close> or more (where \<open>parseInt\<close> rounds). Each one that
  can raise returns a sum.
\<close>

record runtime =
  atob :: "jsstring \<Rightarrow> exn + jsstring"
  utf8_decode :: "nat list \<Rightarrow> exn + jsstring"
  text_decoder :: "jsstring \<Rightarrow> exn + (nat list \<Rightarrow> exn + jsstring)"
  unicode_lower :: "jsstring \<Rightarrow> jsstring"
  char_of_big :: "nat \<Rightarrow> jschar"

subsection \<open>Character classes\<close>

definition isDigit :: "jschar \<Rightarrow> bool" where
  "isDigit c \<longleftrightarrow> 48 \<le> c \<and> c \<le> 57"

definition isHex :: "jschar \<Rightarrow> bool" where
  "isHex c \<longleftrightarrow> (48 \<le> c \<and> c \<le> 57) \<or> (65 \<le> c \<and> c \<le> 70) \<or> (97 \<le> c \<and> c \<le> 102)"

text \<open>The value of one hexadecimal digit, as \<open>parseInt(hex, 16)\<close> reads it.\<close>

definition hexVal :: "jschar \<Rightarrow> nat" where
  "hexVal c = (if c \<le> 57 then c - 48 else if c \<le> 70 then c - 55 else c - 87)"

text \<open>
  \<open>\s\<close> and the characters \<open>trim\<close> removes: the white space and line terminator code
  points of ECMAScript.
\<close>

definition isSpace :: "jschar \<Rightarrow> bool" where
  "isSpace c \<longleftrightarrow> (9 \<le> c \<and> c \<le> 13) \<or> c = 32 \<or> c = 160 \<or> c = 5760 \<or> (8192 \<le> c \<and> c \<le> 8202)
     \<or> c = 8232 \<or> c = 8233 \<or> c = 8239 \<or> c = 8287 \<or> c = 12288 \<or> c = 65279"

text \<open>\<open>\w\<close>: ASCII letters, digits and the underscore.\<close>

definition isAlpha :: "jschar \<Rightarrow> bool" where
  "isAlpha c \<longleftrightarrow> (65 \<le> c \<and> c \<le> 90) \<or> (97 \<le> c \<and> c \<le> 122)"

definition isAlnum :: "jschar \<Rightarrow> bool" where
  "isAlnum c \<longleftrightarrow> isDigit c \<or> isAlpha c"

definition isWord :: "jschar \<Rightarrow> bool" where
  "isWord c \<longleftrightarrow> isAlnum c \<or> c = 95"

text \<open>The line terminators, which \<open>.\<close> does not match.\<close>

definition isLineTerminator :: "jschar \<Rightarrow> bool" where
  "isLineTerminator c \<longleftrightarrow> c = 10 \<or> c = 13 \<or> c = 8232 \<or> c = 8233"

definition lowerAscii :: "jschar \<Rightarrow> jschar" where
  "lowerAscii c = (if 65 \<le> c \<and> c \<le> 90 then c + 32 else c)"

text \<open>
  The canonical form of a code unit under the \<open>i\<close> flag (without the \<open>u\<close> flag): its
  upper case, except that a code unit outside ASCII never becomes an ASCII one. For the
  characters the patterns of this program name (ASCII, CJK, kana, hangul, punctuation) only
  the ASCII letters have another code unit of the same canonical form.
\<close>

definition upperAscii :: "jschar \<Rightarrow> jschar" where
  "upperAscii c = (if 97 \<le> c \<and> c \<le> 122 then c - 32 else c)"

subsection \<open>String methods\<close>

text \<open>
  \<open>toLowerCase\<close>: on ASCII text the ASCII letters are lowered; any other text goes through
  the runtime's Unicode tables (which can change the length of the string).
\<close>

definition toLowerCase :: "runtime \<Rightarrow> jsstring \<Rightarrow> jsstring" where
  "toLowerCase R s = (if list_all (\<lambda>c. c < 128) s then map lowerAscii s else unicode_lower R s)"

definition trimStart :: "jsstring \<Rightarrow> jsstring" where
  "trimStart s = dropWhile isSpace s"

definition trimEnd :: "jsstring \<Rightarrow> jsstring" where
  "trimEnd s = rev (dropWhile isSpace (rev s))"

definition trim :: "jsstring \<Rightarrow> jsstring" where
  "trim s = trimEnd (trimStart s)"

definition startsWith :: "jsstring \<Rightarrow> jsstring \<Rightarrow> bool" where
  "startsWith s p \<longleftrightarrow> take (length p) s = p"

text \<open>\<open>s.indexOf(p)\<close> and \<open>s.lastIndexOf(p)\<close>; \<open>None\<close> stands for \<open>-1\<close>.\<close>

fun indexOf :: "jsstring \<Rightarrow> jsstring \<Rightarrow> nat option" where
  "indexOf [] p = (if p = [] then Some 0 else None)"
| "indexOf (c # cs) p =
     (if startsWith (c # cs) p then Some 0 else map_option Suc (indexOf cs p))"

fun lastIndexOf :: "jsstring \<Rightarrow> jsstring \<Rightarrow> nat option" where
  "lastIndexOf [] p = (if p = [] then Some 0 else None)"
| "lastIndexOf (c # cs) p =
     (case lastIndexOf cs p of
        Some i \<Rightarrow> Some (Suc i)
      | None \<Rightarrow> if startsWith (c # cs) p then Some 0 else None)"

definition includesStr :: "jsstring \<Rightarrow> jsstring \<Rightarrow> bool" where
  "includesStr s p \<longleftrightarrow> indexOf s p \<noteq> None"

text \<open>\<open>s.slice(a, b)\<close> for indices that are not negative.\<close>

definition slice :: "jsstring \<Rightarrow> nat \<Rightarrow> nat \<Rightarrow> jsstring" where
  "slice s a b = take (b - a) (drop a s)"

text \<open>\<open>s.split(/\r?\n/)\<close>: the lines of a text, each line ending without its terminator.\<close>

fun splitLines :: "jsstring \<Rightarrow> jsstring list" where
  "splitLines [] = [[]]"
| "splitLines (c # cs) =
     (if c = 10 then [] # splitLines cs
      else if c = 13 \<and> take 1 cs = [10] then [] # splitLines (drop 1 cs)
      else (case splitLines cs of
              l # ls \<Rightarrow> (c # l) # ls
            | [] \<Rightarrow> [[c]]))"

text \<open>\<open>lines.join('\n')\<close>.\<close>

fun joinNl :: "jsstring list \<Rightarrow> jsstring" where
  "joinNl [] = []"
| "joinNl [l] = l"
| "joinNl (l # ls) = l @ 10 # joinNl ls"

text \<open>The decimal value of the leading digits of a string, as \<open>parseInt(s, 10)\<close> reads a
  string that starts with a digit.\<close>

definition natOfDigits :: "jsstring \<Rightarrow> nat" where
  "natOfDigits s = foldl (\<lambda>n c. 10 * n + (c - 48)) 0 (takeWhile isDigit s)"

section \<open>Regular expressions\<close>

text \<open>
  The patterns of the program are values of \<open>re\<close>; the matcher below is the backtracking
  matcher of ECMAScript for this fragment: character classes, sequence, alternation (the
  left alternative first), greedy and lazy bounded repetition, capturing groups, lookahead,
  a lookbehind of one character class, \<open>^\<close>, \<open>$\<close> (no \<open>m\<close> flag) and \<open>\b\<close>. The \<open>i\<close> flag
  is part of the character classes a pattern is written with. No pattern of the program has
  a capturing group inside a repetition or a backreference.
\<close>

datatype re =
    Chr "jschar \<Rightarrow> bool"
  | Eps
  | Seq re re
  | Alt re re
  | Rep nat "nat option" bool re
  | Grp nat re
  | Ahead bool re
  | BehindChr bool "jschar \<Rightarrow> bool"
  | Bol
  | Eol
  | WordB

text \<open>
  The matcher runs a stack of things still to match. \<open>RepChk p mn mx g a\<close> stands after one
  round of the body \<open>a\<close> of a repetition entered at position \<open>p\<close> with minimum \<open>mn\<close>;
  \<open>GrpEnd n p\<close> closes group \<open>n\<close> opened at position \<open>p\<close>.
\<close>

datatype frame =
    Todo re
  | RepChk nat nat "nat option" bool re
  | GrpEnd nat nat

text \<open>
  A state of the matcher: the position, the code unit before it, the rest of the input from
  it on, and the groups captured so far (number, start, end; the latest first).
\<close>

type_synonym captures = "(nat \<times> nat \<times> nat) list"
type_synonym mstate = "nat \<times> jschar option \<times> jsstring \<times> captures"

primrec wre :: "re \<Rightarrow> nat" where
  "wre (Chr p) = 1"
| "wre Eps = 1"
| "wre (Seq a b) = Suc (wre a + wre b)"
| "wre (Alt a b) = Suc (wre a + wre b)"
| "wre (Rep mn mx g a) = Suc mn * (wre a + 2)"
| "wre (Grp n a) = wre a + 2"
| "wre (Ahead pos a) = Suc (wre a)"
| "wre (BehindChr pos p) = 1"
| "wre Bol = 1"
| "wre Eol = 1"
| "wre WordB = 1"

fun wframe :: "nat \<Rightarrow> frame \<Rightarrow> nat" where
  "wframe i (Todo r) = wre r"
| "wframe i (RepChk p mn mx g a) =
     (if mn = 0 then (if i = p then 1 else wre a + 3) else mn * (wre a + 2) + 1)"
| "wframe i (GrpEnd n p) = 1"

definition wstack :: "nat \<Rightarrow> frame list \<Rightarrow> nat" where
  "wstack i fs = sum_list (map (wframe i) fs)"

definition decr :: "nat option \<Rightarrow> nat option" where
  "decr mx = map_option (\<lambda>x. x - 1) mx"

text \<open>
  The repetition follows the RepeatMatcher of the language definition: with the maximum at
  zero the rest is matched; below the minimum the body must match once more; otherwise a
  greedy repetition tries the body first and a lazy one the rest first; and a round that
  matched the empty string once the minimum is reached fails.
\<close>

function (sequential) run :: "frame list \<Rightarrow> mstate \<Rightarrow> mstate option" where
  "run [] st = Some st"
| "run (Todo (Chr p) # k) (i, pv, [], cp) = None"
| "run (Todo (Chr p) # k) (i, pv, c # cs, cp) =
     (if p c then run k (Suc i, Some c, cs, cp) else None)"
| "run (Todo Eps # k) st = run k st"
| "run (Todo (Seq a b) # k) st = run (Todo a # Todo b # k) st"
| "run (Todo (Alt a b) # k) st =
     (case run (Todo a # k) st of Some r \<Rightarrow> Some r | None \<Rightarrow> run (Todo b # k) st)"
| "run (Todo (Rep mn mx g a) # k) (i, pv, cs, cp) =
     (if mx = Some 0 then run k (i, pv, cs, cp)
      else if 0 < mn then run (Todo a # RepChk i mn mx g a # k) (i, pv, cs, cp)
      else if g then
        (case run (Todo a # RepChk i mn mx g a # k) (i, pv, cs, cp) of
           Some r \<Rightarrow> Some r
         | None \<Rightarrow> run k (i, pv, cs, cp))
      else
        (case run k (i, pv, cs, cp) of
           Some r \<Rightarrow> Some r
         | None \<Rightarrow> run (Todo a # RepChk i mn mx g a # k) (i, pv, cs, cp)))"
| "run (RepChk p mn mx g a # k) (i, pv, cs, cp) =
     (if mn = 0 \<and> i = p then None
      else run (Todo (Rep (mn - 1) (decr mx) g a) # k) (i, pv, cs, cp))"
| "run (Todo (Grp n a) # k) (i, pv, cs, cp) = run (Todo a # GrpEnd n i # k) (i, pv, cs, cp)"
| "run (GrpEnd n p # k) (i, pv, cs, cp) = run k (i, pv, cs, (n, p, i) # cp)"
| "run (Todo (Ahead pos a) # k) (i, pv, cs, cp) =
     (case run [Todo a] (i, pv, cs, cp) of
        Some (i', pv', cs', cp') \<Rightarrow> if pos then run k (i, pv, cs, cp') else None
      | None \<Rightarrow> if pos then None else run k (i, pv, cs, cp))"
| "run (Todo (BehindChr pos p) # k) (i, pv, cs, cp) =
     (if (case pv of None \<Rightarrow> False | Some c \<Rightarrow> p c) = pos then run k (i, pv, cs, cp)
      else None)"
| "run (Todo Bol # k) (i, pv, cs, cp) = (if i = 0 then run k (i, pv, cs, cp) else None)"
| "run (Todo Eol # k) (i, pv, cs, cp) = (if cs = [] then run k (i, pv, cs, cp) else None)"
| "run (Todo WordB # k) (i, pv, cs, cp) =
     (if (case pv of None \<Rightarrow> False | Some c \<Rightarrow> isWord c)
          \<noteq> (case cs of [] \<Rightarrow> False | c # _ \<Rightarrow> isWord c)
      then run k (i, pv, cs, cp) else None)"
  by pat_completeness auto
termination
  apply (relation "measures [\<lambda>(fs, i, pv, cs, cp). length cs, \<lambda>(fs, i, pv, cs, cp). wstack i fs]")
  apply (auto simp: wstack_def)
  apply (case_tac [!] mn)
  apply auto
  done

declare run.simps [simp del]

text \<open>
  The search of \<open>exec\<close>, \<open>match\<close> and \<open>test\<close> on a pattern without the \<open>g\<close> and \<open>y\<close>
  flags: the first position, from the left, where the pattern matches. The result is the
  state at the start of the match and the state at its end.
\<close>

fun searchFrom :: "re \<Rightarrow> mstate \<Rightarrow> (mstate \<times> mstate) option" where
  "searchFrom r (i, pv, [], cp) =
     (case run [Todo r] (i, pv, [], []) of
        Some e \<Rightarrow> Some ((i, pv, [], []), e)
      | None \<Rightarrow> None)"
| "searchFrom r (i, pv, c # cs, cp) =
     (case run [Todo r] (i, pv, c # cs, []) of
        Some e \<Rightarrow> Some ((i, pv, c # cs, []), e)
      | None \<Rightarrow> searchFrom r (Suc i, Some c, cs, cp))"

definition search :: "re \<Rightarrow> jsstring \<Rightarrow> (mstate \<times> mstate) option" where
  "search r s = searchFrom r (0, None, s, [])"

definition test :: "re \<Rightarrow> jsstring \<Rightarrow> bool" where
  "test r s \<longleftrightarrow> search r s \<noteq> None"

text \<open>The text of group \<open>n\<close> of a match on \<open>s\<close>; \<open>None\<close> when the group took no part.\<close>

definition groupText :: "jsstring \<Rightarrow> captures \<Rightarrow> nat \<Rightarrow> jsstring option" where
  "groupText s cp n = (case map_of cp n of None \<Rightarrow> None | Some (a, b) \<Rightarrow> Some (slice s a b))"

text \<open>\<open>s.match(r)\<close> for a pattern without the \<open>g\<close> flag: the groups of the first match.\<close>

definition matchGroups :: "re \<Rightarrow> jsstring \<Rightarrow> (nat \<Rightarrow> jsstring option) option" where
  "matchGroups r s =
     (case search r s of
        None \<Rightarrow> None
      | Some (b, (e, pv, cs, cp)) \<Rightarrow> Some (groupText s cp))"

subsection \<open>Writing patterns\<close>

definition lit :: "jschar \<Rightarrow> re" where
  "lit c = Chr (\<lambda>x. x = c)"

text \<open>A literal character under the \<open>i\<close> flag.\<close>

definition liti :: "jschar \<Rightarrow> re" where
  "liti c = Chr (\<lambda>x. upperAscii x = upperAscii c)"

fun seqs :: "re list \<Rightarrow> re" where
  "seqs [] = Eps"
| "seqs [r] = r"
| "seqs (r # rs) = Seq r (seqs rs)"

fun alts :: "re list \<Rightarrow> re" where
  "alts [] = Eps"
| "alts [r] = r"
| "alts (r # rs) = Alt r (alts rs)"

definition str :: "jsstring \<Rightarrow> re" where
  "str cs = seqs (map lit cs)"

definition stri :: "jsstring \<Rightarrow> re" where
  "stri cs = seqs (map liti cs)"

definition rstar :: "re \<Rightarrow> re" where
  "rstar a = Rep 0 None True a"

definition rplus :: "re \<Rightarrow> re" where
  "rplus a = Rep 1 None True a"

definition ropt :: "re \<Rightarrow> re" where
  "ropt a = Rep 0 (Some 1) True a"

definition anyChar :: re where
  "anyChar = Chr (\<lambda>x. True)"

subsection \<open>Global replacement\<close>

text \<open>A match never moves backwards, and position and rest of the input move together.\<close>

lemma run_measure:
  "run fs st = Some st' \<Longrightarrow>
     fst st \<le> fst st' \<and> fst st' + length (fst (snd (snd st'))) = fst st + length (fst (snd (snd st)))"
proof (induction fs st arbitrary: st' rule: run.induct)
  case (1 st)
  then show ?case by (simp add: run.simps)
next
  case (2 p k i pv cp)
  then show ?case by (simp add: run.simps)
next
  case (3 p k i pv c cs cp)
  then show ?case by (auto simp: run.simps split: if_splits)
next
  case (4 k st)
  then show ?case by (simp add: run.simps)
next
  case (5 a b k st)
  then show ?case by (simp add: run.simps)
next
  case (6 a b k st)
  then show ?case by (auto simp: run.simps split: option.splits)
next
  case (7 mn mx g a k i pv cs cp)
  then show ?case by (auto simp: run.simps split: option.splits if_splits)
next
  case (8 p mn mx g a k i pv cs cp)
  then show ?case by (auto simp: run.simps split: option.splits if_splits)
next
  case (9 n a k i pv cs cp)
  then show ?case by (simp add: run.simps)
next
  case (10 n p k i pv cs cp)
  then show ?case by (simp add: run.simps)
next
  case (11 pos a k i pv cs cp)
  then show ?case by (cases st') (auto simp: run.simps split: option.splits if_splits)
next
  case (12 pos p k i pv cs cp)
  then show ?case by (auto simp: run.simps split: option.splits if_splits)
next
  case (13 k i pv cs cp)
  then show ?case by (auto simp: run.simps split: option.splits if_splits)
next
  case (14 k i pv cs cp)
  then show ?case by (auto simp: run.simps split: option.splits if_splits)
next
  case (15 k i pv cs cp)
  then show ?case by (auto simp: run.simps split: option.splits if_splits)
qed

lemma searchFrom_measure:
  "searchFrom r st = Some (b, e) \<Longrightarrow>
     length (fst (snd (snd b))) \<le> length (fst (snd (snd st)))
     \<and> fst b \<le> fst e \<and> fst e + length (fst (snd (snd e))) = fst b + length (fst (snd (snd b)))"
proof (induction r st rule: searchFrom.induct)
  case (1 r i pv cp)
  then show ?case
    by (auto split: option.splits dest: run_measure)
next
  case (2 r i pv c cs cp)
  then show ?case
    by (auto split: option.splits dest: run_measure)
qed

text \<open>
  \<open>s.replace(r, f)\<close> for a pattern with the \<open>g\<close> flag, from a state of the input on: each
  match, from the left, is replaced by what \<open>f\<close> makes of its groups, and the search goes on
  at the end of the match (one code unit further after an empty match).
\<close>

function replaceFrom :: "re \<Rightarrow> ((nat \<Rightarrow> jsstring option) \<Rightarrow> jsstring) \<Rightarrow> jsstring \<Rightarrow> mstate \<Rightarrow> jsstring" where
  "replaceFrom r f s (i, pv, cs, cp) =
     (case searchFrom r (i, pv, cs, []) of
        None \<Rightarrow> cs
      | Some ((b, pvb, csb, cpb), (e, pve, cse, cpe)) \<Rightarrow>
          take (b - i) cs @ f (groupText s cpe) @
          (if e = b then
             (case csb of
                [] \<Rightarrow> []
              | c # cs' \<Rightarrow> c # replaceFrom r f s (Suc b, Some c, cs', []))
           else replaceFrom r f s (e, pve, cse, [])))"
  by pat_completeness auto
termination
  apply (relation "measure (\<lambda>(r, f, s, i, pv, cs, cp). length cs)")
  apply simp
  apply (auto dest!: searchFrom_measure)
  done

declare replaceFrom.simps [simp del]

definition replaceAll :: "re \<Rightarrow> ((nat \<Rightarrow> jsstring option) \<Rightarrow> jsstring) \<Rightarrow> jsstring \<Rightarrow> jsstring" where
  "replaceAll r f s = replaceFrom r f s (0, None, s, [])"

section \<open>The MIME parser\<close>

subsection \<open>Headers\<close>

text \<open>
  The header object of the parser: a map from the lower-cased name to the value.
  \<open>headers[k] || ''\<close> is \<open>hget\<close>. An assignment to the name \<open>__proto__\<close> stores nothing
  (the object is a plain object and the value a string).
\<close>

type_synonym headers = "jsstring \<rightharpoonup> jsstring"

definition hget :: "headers \<Rightarrow> jsstring \<Rightarrow> jsstring" where
  "hget h k = (case h k of None \<Rightarrow> [] | Some v \<Rightarrow> v)"

definition hstore :: "headers \<Rightarrow> jsstring \<Rightarrow> jsstring \<Rightarrow> headers" where
  "hstore h k v = (if k = js ''__proto__'' then h else h(k \<mapsto> v))"

text \<open>\<open>/^([^:]+):\s*(.*)$/\<close>\<close>

definition headerLineRe :: re where
  "headerLineRe = seqs [Bol, Grp 1 (rplus (Chr (\<lambda>x. x \<noteq> 58))), lit 58, rstar (Chr isSpace),
     Grp 2 (rstar (Chr (\<lambda>x. \<not> isLineTerminator x))), Eol]"

text \<open>\<open>/^\s/.test(line)\<close>\<close>

definition startsWithSpace :: "jsstring \<Rightarrow> bool" where
  "startsWithSpace line = (case line of [] \<Rightarrow> False | c # _ \<Rightarrow> isSpace c)"

text \<open>\<open>line.match(/^([^:]+):\s*(.*)$/)\<close>: the name and the value of a header line.\<close>

definition matchHeaderLine :: "jsstring \<Rightarrow> (jsstring \<times> jsstring) option" where
  "matchHeaderLine line =
     (case matchGroups headerLineRe line of
        None \<Rightarrow> None
      | Some g \<Rightarrow>
          (case (g 1, g 2) of
             (Some name, Some v) \<Rightarrow> Some (name, v)
           | _ \<Rightarrow> None))"

text \<open>
  The loop of \<open>parseHeaders\<close> over the lines, with the header object and \<open>lastKey\<close>. A
  continuation line reads \<open>headers[lastKey]\<close>; \<open>lastKey\<close> is a name that was stored, except
  \<open>__proto__\<close>, for which the assignment stores nothing either.
\<close>

fun parseHeaderLines :: "runtime \<Rightarrow> jsstring list \<Rightarrow> headers \<Rightarrow> jsstring \<Rightarrow> headers" where
  "parseHeaderLines R [] h lastKey = h"
| "parseHeaderLines R (line # ls) h lastKey =
     (if startsWithSpace line \<and> lastKey \<noteq> [] then
        parseHeaderLines R ls
          (case h lastKey of None \<Rightarrow> h | Some v \<Rightarrow> hstore h lastKey (v @ 32 # trim line))
          lastKey
      else
        (case matchHeaderLine line of
           None \<Rightarrow> parseHeaderLines R ls h lastKey
         | Some (name, v) \<Rightarrow>
             parseHeaderLines R ls (hstore h (toLowerCase R name) v) (toLowerCase R name)))"

definition parseHeaders :: "runtime \<Rightarrow> jsstring \<Rightarrow> headers" where
  "parseHeaders R rawHeaders = parseHeaderLines R (splitLines rawHeaders) Map.empty []"

definition splitHeadersAndBody :: "runtime \<Rightarrow> jsstring \<Rightarrow> headers \<times> jsstring" where
  "splitHeadersAndBody R input =
     (case indexOf input [13, 10, 13, 10] of
        Some idx \<Rightarrow> (parseHeaders R (slice input 0 idx), drop (idx + 4) input)
      | None \<Rightarrow>
          (case indexOf input [10, 10] of
             Some idx2 \<Rightarrow> (parseHeaders R (slice input 0 idx2), drop (idx2 + 2) input)
           | None \<Rightarrow> (Map.empty, input)))"

text \<open>\<open>/boundary\s*=\s*"?([^";\r\n]+)"?/i\<close>\<close>

definition boundaryRe :: re where
  "boundaryRe = seqs [stri (js ''boundary''), rstar (Chr isSpace), lit 61, rstar (Chr isSpace),
     ropt (lit 34), Grp 1 (rplus (Chr (\<lambda>x. x \<noteq> 34 \<and> x \<noteq> 59 \<and> x \<noteq> 13 \<and> x \<noteq> 10))),
     ropt (lit 34)]"

definition getBoundary :: "jsstring \<Rightarrow> jsstring" where
  "getBoundary contentType =
     (if contentType = [] then []
      else (case matchGroups boundaryRe contentType of
              None \<Rightarrow> []
            | Some g \<Rightarrow> (case g 1 of None \<Rightarrow> [] | Some b \<Rightarrow> trim b)))"

subsection \<open>Multipart bodies\<close>

fun splitLoop :: "jsstring \<Rightarrow> jsstring \<Rightarrow> jsstring list \<Rightarrow> jsstring list \<Rightarrow> bool
    \<Rightarrow> jsstring list \<Rightarrow> jsstring list" where
  "splitLoop delim endDelim [] current inPart parts = parts"
| "splitLoop delim endDelim (rawLine # ls) current inPart parts =
     (if trim (trimEnd rawLine) = delim then
        splitLoop delim endDelim ls [] True
          (if inPart \<and> current \<noteq> [] then parts @ [joinNl current] else parts)
      else if trim (trimEnd rawLine) = endDelim then
        (if inPart \<and> current \<noteq> [] then parts @ [joinNl current] else parts)
      else
        splitLoop delim endDelim ls (if inPart then current @ [rawLine] else current) inPart parts)"

definition splitMultipart :: "jsstring \<Rightarrow> jsstring \<Rightarrow> jsstring list" where
  "splitMultipart body boundary =
     splitLoop (js ''--'' @ boundary) (js ''--'' @ boundary @ js ''--'') (splitLines body) [] False []"

subsection \<open>Transfer encodings and charsets\<close>

text \<open>\<open>input.replace(/=\r?\n/g, '')\<close>: every \<open>=\<close> directly followed by a line ending goes.\<close>

fun removeSoftBreaks :: "jsstring \<Rightarrow> jsstring" where
  "removeSoftBreaks [] = []"
| "removeSoftBreaks (c # cs) =
     (if c = 61 \<and> take 1 cs = [10] then removeSoftBreaks (drop 1 cs)
      else if c = 61 \<and> take 2 cs = [13, 10] then removeSoftBreaks (drop 2 cs)
      else c # removeSoftBreaks cs)"

text \<open>
  The loop of \<open>decodeQuotedPrintable\<close>, by index as in the source: at an \<open>=\<close> with
  \<open>i + 2 < s.length\<close> and two hexadecimal digits after it, one byte is pushed and the index
  moves by three; otherwise the code unit itself is pushed.
\<close>

function qpLoop :: "jsstring \<Rightarrow> nat \<Rightarrow> nat list \<Rightarrow> nat list" where
  "qpLoop s i bytes =
     (if i < length s then
        (if s ! i = 61 \<and> i + 2 < length s \<and> isHex (s ! (i + 1)) \<and> isHex (s ! (i + 2))
         then qpLoop s (i + 3) (bytes @ [hexVal (s ! (i + 1)) * 16 + hexVal (s ! (i + 2))])
         else qpLoop s (i + 1) (bytes @ [s ! i]))
      else bytes)"
  by pat_completeness auto
termination
  by (relation "measure (\<lambda>(s, i, bytes). length s - i)") auto

declare qpLoop.simps [simp del]

text \<open>\<open>new Uint8Array(values)\<close> keeps every element modulo 256.\<close>

definition toUint8Array :: "nat list \<Rightarrow> nat list" where
  "toUint8Array bytes = map (\<lambda>b. b mod 256) bytes"

definition decodeQuotedPrintable :: "runtime \<Rightarrow> jsstring \<Rightarrow> exn + jsstring" where
  "decodeQuotedPrintable R input =
     (let s = removeSoftBreaks input;
          bytes = qpLoop s 0 []
      in try_catch (utf8_decode R (toUint8Array bytes)) (\<lambda>_. Inr s))"



text \<open>\<open>body.replace(/\s+/g, '')\<close> is \<open>filter (\<lambda>c. \<not> isSpace c) body\<close>.\<close>

definition decodeBody :: "runtime \<Rightarrow> jsstring \<Rightarrow> jsstring \<Rightarrow> exn + jsstring" where
  "decodeBody R body transferEncoding =
     (if body = [] then Inr []
      else if trim transferEncoding = js ''base64'' then
        try_catch
          (case atob R (filter (\<lambda>c. \<not> isSpace c) body) of
             Inl e \<Rightarrow> Inl e
           | Inr bin \<Rightarrow> try_catch (utf8_decode R (toUint8Array bin)) (\<lambda>_. Inr bin))
          (\<lambda>_. Inr body)
      else if trim transferEncoding = js ''quoted-printable'' then decodeQuotedPrintable R body
      else Inr body)"

text \<open>\<open>/charset\s*=\s*"?([^";]+)/i\<close>\<close>

definition charsetRe :: re where
  "charsetRe = seqs [stri (js ''charset''), rstar (Chr isSpace), lit 61, rstar (Chr isSpace),
     ropt (lit 34), Grp 1 (rplus (Chr (\<lambda>x. x \<noteq> 34 \<and> x \<noteq> 59)))]"

definition charsetOf :: "runtime \<Rightarrow> jsstring \<Rightarrow> jsstring" where
  "charsetOf R contentType =
     (let named = (case matchGroups charsetRe contentType of
                     None \<Rightarrow> []
                   | Some g \<Rightarrow> (case g 1 of None \<Rightarrow> [] | Some c \<Rightarrow> toLowerCase R (trim c)))
      in if named = [] then js ''utf-8'' else named)"

definition decodeBodyWithCharset :: "runtime \<Rightarrow> jsstring \<Rightarrow> jsstring \<Rightarrow> jsstring \<Rightarrow> exn + jsstring" where
  "decodeBodyWithCharset R body transferEncoding contentType =
     (case decodeBody R body transferEncoding of
        Inl e \<Rightarrow> Inl e
      | Inr decodedRaw \<Rightarrow>
          (let charset = charsetOf R contentType in
           if decodedRaw = [] then Inr []
           else if charset = js ''utf-8'' \<or> charset = js ''utf8'' \<or> charset = js ''us-ascii''
             then Inr decodedRaw
           else
             try_catch
               (case text_decoder R charset of
                  Inl e \<Rightarrow> Inl e
                | Inr decode \<Rightarrow> decode (toUint8Array decodedRaw))
               (\<lambda>_. Inr decodedRaw)))"

subsection \<open>HTML found in raw text\<close>

definition guessHtmlFromRaw :: "runtime \<Rightarrow> jsstring \<Rightarrow> jsstring" where
  "guessHtmlFromRaw R raw =
     (if raw = [] then []
      else
        (let lower = toLowerCase R raw;
             hs = (case indexOf lower (js ''<html'') of
                     None \<Rightarrow> indexOf lower (js ''<!doctype html'')
                   | Some i \<Rightarrow> Some i)
         in case hs of
              None \<Rightarrow> []
            | Some hs' \<Rightarrow>
                (case lastIndexOf lower (js ''</html>'') of
                   None \<Rightarrow> []
                 | Some he \<Rightarrow> slice raw hs' (he + 7))))"

definition escapeChar :: "jschar \<Rightarrow> jsstring" where
  "escapeChar c =
     (if c = 38 then js ''&amp;''
      else if c = 60 then js ''&lt;''
      else if c = 62 then js ''&gt;''
      else if c = 34 then js ''&quot;''
      else if c = 39 then js ''&#39;''
      else [c])"

definition escapeHtml :: "jsstring \<Rightarrow> jsstring" where
  "escapeHtml s = concat (map escapeChar s)"

definition textToHtml :: "jsstring \<Rightarrow> jsstring" where
  "textToHtml t = js ''<div style=\"white-space:pre-wrap\">'' @ escapeHtml t @ js ''</div>''"

subsection \<open>Entities\<close>

record parsed =
  textOf :: jsstring
  htmlOf :: jsstring

definition emptyParsed :: parsed where
  "emptyParsed = \<lparr>textOf = [], htmlOf = []\<rparr>"

text \<open>The branch of \<open>parseEntity\<close> for an entity that is not a multipart.\<close>

definition leafEntity :: "runtime \<Rightarrow> jsstring \<Rightarrow> jsstring \<Rightarrow> jsstring \<Rightarrow> exn + parsed" where
  "leafEntity R ct transferEnc body =
     (case decodeBodyWithCharset R body transferEnc ct of
        Inl e \<Rightarrow> Inl e
      | Inr decoded \<Rightarrow>
          (let isHtml = includesStr ct (js ''text/html'');
               isText = (includesStr ct (js ''text/plain'') \<or> \<not> isHtml);
               guessHtml = guessHtmlFromRaw R (if decoded \<noteq> [] then decoded else body)
           in if ct = [] \<and> guessHtml \<noteq> [] then Inr \<lparr>textOf = [], htmlOf = guessHtml\<rparr>
              else Inr \<lparr>textOf = (if isText then decoded else []),
                        htmlOf = (if isHtml then decoded else [])\<rparr>))"

text \<open>
  \<open>if (!html && nested.html) html = nested.html; if (!text && nested.text) text = nested.text;\<close>
\<close>

definition mergeInto :: "parsed \<Rightarrow> parsed \<Rightarrow> parsed" where
  "mergeInto acc nested =
     \<lparr>textOf = (if textOf acc = [] \<and> textOf nested \<noteq> [] then textOf nested else textOf acc),
      htmlOf = (if htmlOf acc = [] \<and> htmlOf nested \<noteq> [] then htmlOf nested else htmlOf acc)\<rparr>"

text \<open>\<open>/<\w+[\s\S]*?>[\s\S]*<\/\w+>/\<close>\<close>

definition tagLikeRe :: re where
  "tagLikeRe = seqs [lit 60, rplus (Chr isWord), Rep 0 None False anyChar, lit 62, rstar anyChar,
     lit 60, lit 47, rplus (Chr isWord), lit 62]"

text \<open>What \<open>parseEntity\<close> does with a multipart after the loop over its parts.\<close>

definition finishMultipart :: "runtime \<Rightarrow> jsstring \<Rightarrow> parsed \<Rightarrow> parsed" where
  "finishMultipart R body acc =
     (let html1 = (if htmlOf acc = [] then
                     (let g = guessHtmlFromRaw R body
                      in if g = [] \<and> test tagLikeRe body then body else g)
                   else htmlOf acc);
          html2 = (if html1 = [] \<and> textOf acc \<noteq> [] then textToHtml (textOf acc) else html1)
      in \<lparr>textOf = textOf acc, htmlOf = html2\<rparr>)"

definition sizeLines :: "jsstring list \<Rightarrow> nat" where
  "sizeLines ls = sum_list (map (\<lambda>l. Suc (length l)) ls)"

text \<open>
  Every part of a multipart body is shorter than the body, and the body of an entity is no
  longer than the entity: the recursion of the parser ends.
\<close>

lemma sizeLines_simps [simp]:
  "sizeLines [] = 0" "sizeLines (l # ls) = Suc (length l) + sizeLines ls"
  "sizeLines (xs @ ys) = sizeLines xs + sizeLines ys"
  by (simp_all add: sizeLines_def)

lemma splitLines_nonempty: "splitLines s \<noteq> []"
  by (induction s rule: splitLines.induct) (auto split: list.splits)

lemma sizeLines_splitLines: "sizeLines (splitLines s) \<le> Suc (length s)"
proof (induction s rule: splitLines.induct)
  case 1
  show ?case by simp
next
  case (2 c cs)
  show ?case
  proof (cases "c = 10")
    case True
    with 2 show ?thesis by simp
  next
    case nl: False
    show ?thesis
    proof (cases "c = 13 \<and> take 1 cs = [10]")
      case True
      with nl 2 show ?thesis by (cases cs) auto
    next
      case False
      with nl 2 show ?thesis
        by (cases "splitLines cs") (auto simp: splitLines_nonempty)
    qed
  qed
qed

lemma length_joinNl: "ls \<noteq> [] \<Longrightarrow> Suc (length (joinNl ls)) = sizeLines ls"
  by (induction ls rule: joinNl.induct) auto

lemma splitLoop_inPart:
  "sizeLines (splitLoop d e ls cur True parts) \<le> sizeLines parts + sizeLines cur + sizeLines ls"
proof (induction ls arbitrary: cur parts)
  case Nil
  show ?case by simp
next
  case (Cons rawLine ls)
  have j: "cur \<noteq> [] \<Longrightarrow> sizeLines (parts @ [joinNl cur]) = sizeLines parts + sizeLines cur"
    using length_joinNl [of cur] by simp
  show ?case
    using Cons [of "[]" "parts @ [joinNl cur]"] Cons [of "[]" parts] Cons [of "cur @ [rawLine]" parts] j
    by (cases "cur = []") auto
qed

lemma splitLoop_outside:
  "sizeLines (splitLoop d e ls [] False parts) \<le> sizeLines parts + (sizeLines ls - 1)"
proof (induction ls arbitrary: parts)
  case Nil
  show ?case by simp
next
  case (Cons rawLine ls)
  show ?case
    using Cons [of parts] splitLoop_inPart [of d e ls "[]" parts]
    by auto
qed

lemma sizeLines_splitMultipart: "sizeLines (splitMultipart body boundary) \<le> length body"
  using splitLoop_outside [of "js ''--'' @ boundary" "js ''--'' @ boundary @ js ''--''" "splitLines body" "[]"]
    sizeLines_splitLines [of body]
  by (simp add: splitMultipart_def)

lemma splitHeadersAndBody_body: "splitHeadersAndBody R x = (h, b) \<Longrightarrow> length b \<le> length x"
  by (auto simp: splitHeadersAndBody_def split: option.splits)

text \<open>
  \<open>parseEmailBody\<close>, \<open>parseEntity\<close> and the loop of \<open>parseEntity\<close> over the parts of a
  multipart, with the accumulated \<open>text\<close> and \<open>html\<close>. The loop ends (\<open>break\<close>) once both
  are there; a part that names \<open>rfc822-headers\<close> is skipped (\<open>continue\<close>).
\<close>

function parseEmailBody :: "runtime \<Rightarrow> jsstring \<Rightarrow> exn + parsed"
  and parseEntity :: "runtime \<Rightarrow> headers \<Rightarrow> jsstring \<Rightarrow> exn + parsed"
  and parseParts :: "runtime \<Rightarrow> jsstring list \<Rightarrow> parsed \<Rightarrow> exn + parsed" where
  "parseEmailBody R raw =
     (if raw = [] then Inr emptyParsed
      else (case splitHeadersAndBody R raw of
              (topHeaders, topBody) \<Rightarrow> parseEntity R topHeaders topBody))"
| "parseEntity R hs body =
     (if \<not> startsWith (toLowerCase R (hget hs (js ''content-type''))) (js ''multipart/'') then
        leafEntity R (toLowerCase R (hget hs (js ''content-type'')))
          (toLowerCase R (hget hs (js ''content-transfer-encoding''))) body
      else if getBoundary (hget hs (js ''content-type'')) \<noteq> [] then
        (case parseParts R (splitMultipart body (getBoundary (hget hs (js ''content-type''))))
                emptyParsed of
           Inl e \<Rightarrow> Inl e
         | Inr acc \<Rightarrow> Inr (finishMultipart R body acc))
      else Inr (finishMultipart R body emptyParsed))"
| "parseParts R [] acc = Inr acc"
| "parseParts R (part # parts) acc =
     (case splitHeadersAndBody R part of
        (ph, pb) \<Rightarrow>
          (if startsWith (toLowerCase R (hget ph (js ''content-type''))) (js ''multipart/'') then
             (case parseEntity R ph pb of
                Inl e \<Rightarrow> Inl e
              | Inr nested \<Rightarrow>
                  (if textOf (mergeInto acc nested) \<noteq> [] \<and> htmlOf (mergeInto acc nested) \<noteq> []
                   then Inr (mergeInto acc nested)
                   else parseParts R parts (mergeInto acc nested)))
           else if startsWith (toLowerCase R (hget ph (js ''content-type''))) (js ''message/rfc822'') then
             (case parseEmailBody R pb of
                Inl e \<Rightarrow> Inl e
              | Inr nested \<Rightarrow>
                  (if textOf (mergeInto acc nested) \<noteq> [] \<and> htmlOf (mergeInto acc nested) \<noteq> []
                   then Inr (mergeInto acc nested)
                   else parseParts R parts (mergeInto acc nested)))
           else if includesStr (toLowerCase R (hget ph (js ''content-type''))) (js ''rfc822-headers'') then
             parseParts R parts acc
           else
             (case parseEntity R ph pb of
                Inl e \<Rightarrow> Inl e
              | Inr res \<Rightarrow>
                  (if textOf (mergeInto acc res) \<noteq> [] \<and> htmlOf (mergeInto acc res) \<noteq> []
                   then Inr (mergeInto acc res)
                   else parseParts R parts (mergeInto acc res)))))"
  by pat_completeness auto
termination
proof (relation "measure (\<lambda>x. case x of
      Inl (R, raw) \<Rightarrow> 3 * length raw + 2
    | Inr (Inl (R, hs, body)) \<Rightarrow> 3 * length body + 1
    | Inr (Inr (R, ps, acc)) \<Rightarrow> 3 * sizeLines ps)", goal_cases)
  case 1
  show ?case by simp
next
  case (2 R raw x y)
  then have "length y \<le> length raw"
    using splitHeadersAndBody_body [of R raw x y] by simp
  then show ?case by simp
next
  case (3 R hs body)
  show ?case
    using sizeLines_splitMultipart [of body "getBoundary (hget hs (js ''content-type''))"] by simp
next
  case (4 R part parts acc x y)
  then have "length y \<le> length part"
    using splitHeadersAndBody_body [of R part x y] by simp
  then show ?case by simp
next
  case (5 R part parts acc x y b)
  show ?case by simp
next
  case (6 R part parts acc x y)
  then have "length y \<le> length part"
    using splitHeadersAndBody_body [of R part x y] by simp
  then show ?case by simp
next
  case (7 R part parts acc x y b)
  show ?case by simp
next
  case (8 R part parts acc x y)
  show ?case by simp
next
  case (9 R part parts acc x y)
  then have "length y \<le> length part"
    using splitHeadersAndBody_body [of R part x y] by simp
  then show ?case by simp
next
  case (10 R part parts acc x y b)
  show ?case by simp
qed

declare parseEmailBody.simps [simp del] parseEntity.simps [simp del] parseParts.simps [simp del]

section \<open>Verification codes\<close>

subsection \<open>Text of an HTML body\<close>

text \<open>
  The patterns of \<open>stripHtml\<close>, in the order they are applied:
  \<open>/<script[\s\S]*?<\/script>/gi\<close>, \<open>/<style[\s\S]*?<\/style>/gi\<close>, \<open>/<[^>]+>/g\<close>,
  \<open>/&nbsp;/gi\<close>, \<open>/&#(\d+);/g\<close>, \<open>/&[a-z]+;/gi\<close> and \<open>/\s+/g\<close>.
\<close>

definition scriptRe :: re where
  "scriptRe = seqs [stri (js ''<script''), Rep 0 None False anyChar, stri (js ''</script>'')]"

definition styleRe :: re where
  "styleRe = seqs [stri (js ''<style''), Rep 0 None False anyChar, stri (js ''</style>'')]"

definition tagRe :: re where
  "tagRe = seqs [lit 60, rplus (Chr (\<lambda>x. x \<noteq> 62)), lit 62]"

definition nbspRe :: re where
  "nbspRe = stri (js ''&nbsp;'')"

definition numericEntityRe :: re where
  "numericEntityRe = seqs [lit 38, lit 35, Grp 1 (rplus (Chr isDigit)), lit 59]"

definition namedEntityRe :: re where
  "namedEntityRe = seqs [lit 38, rplus (Chr isAlpha), lit 59]"

definition spacesRe :: re where
  "spacesRe = rplus (Chr isSpace)"

text \<open>
  \<open>String.fromCharCode(parseInt(n, 10))\<close> for a string of digits: the number modulo
  \<open>2 ^ 16\<close> where \<open>parseInt\<close> is exact.
\<close>

definition charOfDigits :: "runtime \<Rightarrow> jsstring \<Rightarrow> jschar" where
  "charOfDigits R n =
     (if natOfDigits n < 9007199254740992 then natOfDigits n mod 65536
      else char_of_big R (natOfDigits n))"

definition stripHtml :: "runtime \<Rightarrow> jsstring \<Rightarrow> jsstring" where
  "stripHtml R s =
     trim
      (replaceAll spacesRe (\<lambda>g. [32])
        (replaceAll namedEntityRe (\<lambda>g. [32])
          (replaceAll numericEntityRe (\<lambda>g. case g 1 of None \<Rightarrow> [32] | Some n \<Rightarrow> [charOfDigits R n])
            (replaceAll nbspRe (\<lambda>g. [32])
              (replaceAll tagRe (\<lambda>g. [32])
                (replaceAll styleRe (\<lambda>g. [32])
                  (replaceAll scriptRe (\<lambda>g. [32]) s)))))))"

subsection \<open>The patterns of the extractor\<close>

text \<open>
  The keyword alternation \<open>kw\<close>, under the \<open>i\<close> flag:
  \<open>(?:verification|one[-\s]?time|two[-\s]?factor|2fa|security|auth|login|confirm|code|otp|...)\<close>
  followed by the Chinese, Japanese and Korean words for a verification code, given here by
  their code units.
\<close>

definition optDashSpace :: re where
  "optDashSpace = ropt (Chr (\<lambda>x. x = 45 \<or> isSpace x))"

definition kw :: re where
  "kw = alts [stri (js ''verification''),
              seqs [stri (js ''one''), optDashSpace, stri (js ''time'')],
              seqs [stri (js ''two''), optDashSpace, stri (js ''factor'')],
              stri (js ''2fa''), stri (js ''security''), stri (js ''auth''), stri (js ''login''),
              stri (js ''confirm''), stri (js ''code''), stri (js ''otp''),
              stri [39564, 35777, 30721], stri [26657, 39564, 30721], stri [39511, 35657, 30908],
              stri [30906, 35469, 30908], stri [35469, 35657, 30908],
              stri [35469, 35388, 12467, 12540, 12489], stri [51064, 51613, 53076, 46300],
              stri [53076, 46300]]"

text \<open>
  \<open>sepClass\<close>: a no-break space, white space, a hyphen, an en dash, an em dash, an
  underscore, a full stop, a middle dot, a bullet, a bullet operator, a hyphenation point or
  an apostrophe.
\<close>

definition isSep :: "jschar \<Rightarrow> bool" where
  "isSep x \<longleftrightarrow> x = 160 \<or> isSpace x \<or> x = 45 \<or> x = 8211 \<or> x = 8212 \<or> x = 95 \<or> x = 46 \<or> x = 183
      \<or> x = 8226 \<or> x = 8729 \<or> x = 8231 \<or> x = 39"

text \<open>\<open>codeChunk\<close>: \<open>([0-9](?:sepClass?[0-9]){3,7})\<close>\<close>

definition codeChunk :: re where
  "codeChunk = Grp 1 (Seq (Chr isDigit) (Rep 3 (Some 7) True (Seq (ropt (Chr isSep)) (Chr isDigit))))"

text \<open>
  The gap between keyword and digits. The source writes it \<open>[^\n\r\d]{0,n}\<close> inside a
  template literal, where \<open>\n\<close> and \<open>\r\<close> are the line feed and the carriage return and
  \<open>\d\<close> is the letter \<open>d\<close>: the class the pattern is compiled with excludes the line feed,
  the carriage return and, under the \<open>i\<close> flag, the letters \<open>d\<close> and \<open>D\<close>; a digit is in it.
\<close>

definition gapRe :: "nat \<Rightarrow> re" where
  "gapRe n = Rep 0 (Some n) True (Chr (\<lambda>x. x \<noteq> 10 \<and> x \<noteq> 13 \<and> upperAscii x \<noteq> 68))"

text \<open>
  \<open>kw[^\n\r\d]{0,n}(?<!\d)codeChunk(?!\d)\<close> and \<open>(?<!\d)codeChunk(?!\d)[^\n\r\d]{0,n}kw\<close>
\<close>

definition kwThenCode :: "nat \<Rightarrow> re" where
  "kwThenCode n = seqs [kw, gapRe n, BehindChr False isDigit, codeChunk, Ahead False (Chr isDigit)]"

definition codeThenKw :: "nat \<Rightarrow> re" where
  "codeThenKw n = seqs [BehindChr False isDigit, codeChunk, Ahead False (Chr isDigit), gapRe n, kw]"

definition subjectOrdereds :: "re list" where
  "subjectOrdereds = [kwThenCode 20, codeThenKw 20]"

definition bodyOrdereds :: "re list" where
  "bodyOrdereds = [kwThenCode 30, codeThenKw 30]"

definition looseBodyOrdereds :: "re list" where
  "looseBodyOrdereds = [kwThenCode 80, codeThenKw 80]"

subsection \<open>The false-positive filter\<close>

text \<open>\<open>/\b[a-z]{2,}\s+\d{5}\b/i\<close>\<close>

definition wordThenFiveRe :: re where
  "wordThenFiveRe = seqs [WordB, Rep 2 None True (Chr isAlpha), rplus (Chr isSpace),
     Rep 5 (Some 5) True (Chr isDigit), WordB]"

text \<open>
  \<open>new RegExp(`\\b${digits}\\s+[A-Z][a-z]+(?:,|\\b)`, 'i')\<close>, for a string of digits. Under
  the \<open>i\<close> flag both \<open>[A-Z]\<close> and \<open>[a-z]\<close> match every ASCII letter.
\<close>

definition addressPattern :: "jsstring \<Rightarrow> re" where
  "addressPattern digits = seqs [WordB, stri digits, rplus (Chr isSpace), Chr isAlpha,
     rplus (Chr isAlpha), Alt (lit 44) WordB]"

definition isLikelyNonVerificationCode :: "runtime \<Rightarrow> jsstring \<Rightarrow> jsstring \<Rightarrow> bool" where
  "isLikelyNonVerificationCode R digits context =
     (if digits = [] then True
      else if length digits = 4 \<and> 2000 \<le> natOfDigits digits \<and> natOfDigits digits \<le> 2099 then True
      else if length digits = 5 \<and>
           (includesStr (toLowerCase R context) (js ''address'') \<or>
            includesStr (toLowerCase R context) (js ''street'') \<or>
            includesStr (toLowerCase R context) (js ''zip'') \<or>
            includesStr (toLowerCase R context) (js ''postal'') \<or>
            test wordThenFiveRe context) then True
      else if test (addressPattern digits) context then True
      else False)"

subsection \<open>The extractor\<close>

text \<open>
  A value of a field of the argument: missing (\<open>undefined\<close>), \<open>null\<close> or a string.
  \<open>String(v || '')\<close> is \<open>strOr v\<close>.
\<close>

datatype jsval = Undefined | Null | Str jsstring

definition strOr :: "jsval \<Rightarrow> jsstring" where
  "strOr v = (case v of Str s \<Rightarrow> s | _ \<Rightarrow> [])"

record ctx =
  subject :: jsval
  text' :: jsval
  html :: jsval

text \<open>
  The argument of \<open>extractVerificationCode\<close>: none (the default \<open>{}\<close> is taken), \<open>null\<close>
  (destructuring it raises a TypeError) or an object.
\<close>

datatype jsarg = NoArgument | ArgNull | ArgObject ctx

definition normalizeDigits :: "jsstring \<Rightarrow> jsstring" where
  "normalizeDigits s =
     (let digits = filter isDigit s
      in if 4 \<le> length digits \<and> length digits \<le> 8 then digits else [])"

text \<open>
  \<open>const m = s.match(r); if (m && m[1]) { const n = normalizeDigits(m[1]); ... }\<close>: the
  candidate of a pattern on a text, empty when there is none.
\<close>

definition candidate :: "re \<Rightarrow> jsstring \<Rightarrow> jsstring" where
  "candidate r s =
     (case matchGroups r s of
        None \<Rightarrow> []
      | Some g \<Rightarrow> (case g 1 of None \<Rightarrow> [] | Some c \<Rightarrow> normalizeDigits c))"

text \<open>
  A loop \<open>for (const r of patterns)\<close> that returns the first candidate that is not empty
  and that the check accepts.
\<close>

fun firstAccepted :: "(jsstring \<Rightarrow> bool) \<Rightarrow> re list \<Rightarrow> jsstring \<Rightarrow> jsstring option" where
  "firstAccepted ok [] s = None"
| "firstAccepted ok (r # rs) s =
     (if candidate r s \<noteq> [] \<and> ok (candidate r s) then Some (candidate r s)
      else firstAccepted ok rs s)"

text \<open>\<open>sources.body\<close>: \<open>`${textBody} ${htmlBody}`.trim()\<close> with \<open>htmlBody = stripHtml(html)\<close>.\<close>

definition sourcesBody :: "runtime \<Rightarrow> jsstring \<Rightarrow> jsstring \<Rightarrow> jsstring" where
  "sourcesBody R textBody htmlRaw = trim (textBody @ [32] @ stripHtml R htmlRaw)"

definition extractFrom :: "runtime \<Rightarrow> jsstring \<Rightarrow> jsstring \<Rightarrow> jsstring" where
  "extractFrom R subjectText body =
     (case firstAccepted (\<lambda>n. True) subjectOrdereds subjectText of
        Some n \<Rightarrow> n
      | None \<Rightarrow>
          (case firstAccepted (\<lambda>n. True) bodyOrdereds body of
             Some n \<Rightarrow> n
           | None \<Rightarrow>
               (case firstAccepted (\<lambda>n. \<not> isLikelyNonVerificationCode R n body)
                       looseBodyOrdereds body of
                  Some n \<Rightarrow> n
                | None \<Rightarrow> [])))"

definition extractVerificationCode :: "runtime \<Rightarrow> jsarg \<Rightarrow> exn + jsstring" where
  "extractVerificationCode R arg =
     (case arg of
        ArgNull \<Rightarrow> Inl TypeError
      | NoArgument \<Rightarrow> Inr (extractFrom R [] (sourcesBody R [] []))
      | ArgObject c \<Rightarrow>
          Inr (extractFrom R (strOr (subject c)) (sourcesBody R (strOr (text' c)) (strOr (html c)))))"

section \<open>The extractor of the list preview\<close>

text \<open>
  \<open>extractCode\<close> of \<open>ui-helpers.js\<close>. Its keyword alternation, under the \<open>i\<close> flag:
  the Chinese words for verification code, check code and activation code, then
  \<open>one[-\s]?time\s+code|verification\s+code|security\s+code|two[-\s]?factor|2fa|otp|login\s+code|code\<close>.
\<close>

definition keywordsRe :: re where
  "keywordsRe = alts [stri [39564, 35777, 30721], stri [26657, 39564, 30721], stri [28608, 27963, 30721],
      seqs [stri (js ''one''), optDashSpace, stri (js ''time''), rplus (Chr isSpace), stri (js ''code'')],
      seqs [stri (js ''verification''), rplus (Chr isSpace), stri (js ''code'')],
      seqs [stri (js ''security''), rplus (Chr isSpace), stri (js ''code'')],
      seqs [stri (js ''two''), optDashSpace, stri (js ''factor'')],
      stri (js ''2fa''), stri (js ''otp''),
      seqs [stri (js ''login''), rplus (Chr isSpace), stri (js ''code'')],
      stri (js ''code'')]"

text \<open>\<open>(?:is(?:\s*[:\<dots>])?|[:\<dots>]|\<dots>|\<dots>)?\<close>: \<open>is\<close>, a colon (ASCII or full width) or one of two
  Chinese copulas.\<close>

definition isColon :: "jschar \<Rightarrow> bool" where
  "isColon x \<longleftrightarrow> x = 58 \<or> x = 65306"

definition connector :: re where
  "connector = ropt (alts [Seq (stri (js ''is'')) (ropt (Seq (rstar (Chr isSpace)) (Chr isColon))),
      Chr isColon, liti 20026, liti 26159])"

definition notAlnum :: "nat \<Rightarrow> re" where
  "notAlnum n = Rep 0 (Some n) True (Chr (\<lambda>x. \<not> isAlnum x))"

definition isDashSep :: "jschar \<Rightarrow> bool" where
  "isDashSep x \<longleftrightarrow> x = 32 \<or> x = 9 \<or> x = 45"

definition codeRule1 :: re where
  "codeRule1 = seqs [keywordsRe, notAlnum 20, connector, notAlnum 10,
     Grp 1 (Rep 4 (Some 8) True (Chr isDigit)), Ahead False (Chr isAlnum)]"

definition codeRule2 :: re where
  "codeRule2 = seqs [keywordsRe, notAlnum 20, connector, notAlnum 10,
     Grp 1 (Seq (Rep 3 (Some 7) True (Seq (Chr isDigit) (Chr isDashSep))) (Chr isDigit))]"

definition codeRule3 :: re where
  "codeRule3 = seqs [keywordsRe, notAlnum 40,
     Grp 1 (Seq (Ahead True (Seq (rstar (Chr isAlnum)) (Chr isDigit)))
                (Rep 4 (Some 8) True (Chr isAlnum))),
     Ahead False (Chr isAlnum)]"

text \<open>\<open>/(?<!\d)(\d{6})(?!\d)/\<close> and \<open>/(\d(?:[ \t-]\d){5,7})/\<close>\<close>

definition codeRule4 :: re where
  "codeRule4 = seqs [BehindChr False isDigit, Grp 1 (Rep 6 (Some 6) True (Chr isDigit)),
     Ahead False (Chr isDigit)]"

definition codeRule5 :: re where
  "codeRule5 = Grp 1 (Seq (Chr isDigit) (Rep 5 (Some 7) True (Seq (Chr isDashSep) (Chr isDigit))))"

definition group1 :: "re \<Rightarrow> jsstring \<Rightarrow> jsstring option" where
  "group1 r s = (case matchGroups r s of None \<Rightarrow> None | Some g \<Rightarrow> g 1)"

text \<open>
  \<open>if (m) { const digits = m[1].replace(/\D/g, ''); if (digits.length >= 4 && digits.length <= 8)
  return digits; }\<close>: the digits a rule returns, if it returns.
\<close>

definition digitsOfGroup :: "re \<Rightarrow> jsstring \<Rightarrow> jsstring option" where
  "digitsOfGroup r s =
     (case group1 r s of
        None \<Rightarrow> None
      | Some c \<Rightarrow> if normalizeDigits c \<noteq> [] then Some (normalizeDigits c) else None)"

definition extractCode :: "jsstring \<Rightarrow> jsstring" where
  "extractCode t =
     (if t = [] then []
      else case group1 codeRule1 t of
        Some c \<Rightarrow> c
      | None \<Rightarrow>
          (case digitsOfGroup codeRule2 t of
             Some d \<Rightarrow> d
           | None \<Rightarrow>
               (case group1 codeRule3 t of
                  Some c \<Rightarrow> c
                | None \<Rightarrow>
                    (case group1 codeRule4 t of
                       Some c \<Rightarrow> c
                     | None \<Rightarrow>
                         (case digitsOfGroup codeRule5 t of
                            Some d \<Rightarrow> d
                          | None \<Rightarrow> [])))))"

section \<open>A runtime for the examples\<close>

text \<open>
  The examples below are evaluated with this runtime: the UTF-8 decoder and the base64
  decoder of the web platform, no decoder for any other label, and, outside ASCII, a lower
  case that changes nothing. The theorems hold for every runtime.
\<close>

text \<open>
  The UTF-8 decoder, one byte at a time: the bytes still needed, the code point so far and
  the bounds of the next byte. A byte that cannot continue a sequence ends it with U+FFFD
  and is read again as a first byte.
\<close>

definition utf8Start :: "nat \<Rightarrow> nat list \<times> nat \<times> nat \<times> nat \<times> nat" where
  "utf8Start b =
     (if b \<le> 127 then ([b], 0, 0, 128, 191)
      else if 194 \<le> b \<and> b \<le> 223 then ([], 1, b mod 32, 128, 191)
      else if 224 \<le> b \<and> b \<le> 239 then
        ([], 2, b mod 16, (if b = 224 then 160 else 128), (if b = 237 then 159 else 191))
      else if 240 \<le> b \<and> b \<le> 244 then
        ([], 3, b mod 8, (if b = 240 then 144 else 128), (if b = 244 then 143 else 191))
      else ([65533], 0, 0, 128, 191))"

fun utf8Run :: "nat \<Rightarrow> nat \<Rightarrow> nat \<Rightarrow> nat \<Rightarrow> nat list \<Rightarrow> nat list" where
  "utf8Run needed cp lo hi [] = (if needed = 0 then [] else [65533])"
| "utf8Run needed cp lo hi (b # bs) =
     (if needed = 0 then
        (case utf8Start b of (out, n, c, l, h) \<Rightarrow> out @ utf8Run n c l h bs)
      else if b < lo \<or> hi < b then
        (case utf8Start b of (out, n, c, l, h) \<Rightarrow> 65533 # out @ utf8Run n c l h bs)
      else if needed = 1 then (cp * 64 + b mod 64) # utf8Run 0 0 128 191 bs
      else utf8Run (needed - 1) (cp * 64 + b mod 64) 128 191 bs)"

text \<open>The UTF-16 code units of a code point.\<close>

definition utf16Of :: "nat \<Rightarrow> jsstring" where
  "utf16Of cp =
     (if cp < 65536 then [cp]
      else [55296 + (cp - 65536) div 1024, 56320 + (cp - 65536) mod 1024])"

text \<open>\<open>TextDecoder.decode\<close> drops a byte order mark at the start.\<close>

definition utf8Text :: "nat list \<Rightarrow> jsstring" where
  "utf8Text bytes =
     (case utf8Run 0 0 128 191 bytes of
        [] \<Rightarrow> []
      | cp # cps \<Rightarrow> concat (map utf16Of (if cp = 65279 then cps else cp # cps)))"

text \<open>
  \<open>atob\<close>: ASCII white space is skipped, padding is removed from a text whose length is a
  multiple of four, and what is left must be base64 digits and not one digit more than a
  multiple of four.
\<close>

definition isBase64 :: "jschar \<Rightarrow> bool" where
  "isBase64 c \<longleftrightarrow> isAlnum c \<or> c = 43 \<or> c = 47"

definition base64Val :: "jschar \<Rightarrow> nat" where
  "base64Val c =
     (if 65 \<le> c \<and> c \<le> 90 then c - 65
      else if 97 \<le> c \<and> c \<le> 122 then c - 71
      else if 48 \<le> c \<and> c \<le> 57 then c + 4
      else if c = 43 then 62 else 63)"

fun base64Bytes :: "nat list \<Rightarrow> nat list" where
  "base64Bytes (a # b # c # d # rest) =
     (a * 4 + b div 16) # ((b mod 16) * 16 + c div 4) # ((c mod 4) * 64 + d) # base64Bytes rest"
| "base64Bytes [a, b, c] = [a * 4 + b div 16, (b mod 16) * 16 + c div 4]"
| "base64Bytes [a, b] = [a * 4 + b div 16]"
| "base64Bytes _ = []"

definition dropPadding :: "jsstring \<Rightarrow> jsstring" where
  "dropPadding d =
     (if length d mod 4 = 0 \<and> d \<noteq> [] \<and> last d = 61
      then (if butlast d \<noteq> [] \<and> last (butlast d) = 61 then butlast (butlast d) else butlast d)
      else d)"

definition atobText :: "jsstring \<Rightarrow> exn + jsstring" where
  "atobText d =
     (let d1 = dropPadding (filter (\<lambda>c. c \<noteq> 9 \<and> c \<noteq> 10 \<and> c \<noteq> 12 \<and> c \<noteq> 13 \<and> c \<noteq> 32) d)
      in if length d1 mod 4 = 1 \<or> \<not> list_all isBase64 d1 then Inl InvalidCharacterError
         else Inr (base64Bytes (map base64Val d1)))"

definition exampleRuntime :: runtime where
  "exampleRuntime =
     \<lparr>atob = atobText,
      utf8_decode = (\<lambda>bytes. Inr (utf8Text bytes)),
      text_decoder = (\<lambda>label. Inl RangeError),
      unicode_lower = map lowerAscii,
      char_of_big = (\<lambda>n. 0)\<rparr>"

section \<open>Evaluating the model on examples\<close>

text \<open>The equations that evaluate a pattern on a given text.\<close>

lemmas regex_eval = run.simps search_def matchGroups_def groupText_def slice_def test_def
  lit_def liti_def str_def stri_def rstar_def rplus_def ropt_def anyChar_def decr_def
  upperAscii_def lowerAscii_def isDigit_def isSpace_def isAlpha_def isAlnum_def isWord_def
  isLineTerminator_def js_def

lemmas string_eval = trim_def trimStart_def trimEnd_def startsWith_def includesStr_def
  toLowerCase_def startsWithSpace_def

lemmas pattern_eval = subjectOrdereds_def bodyOrdereds_def looseBodyOrdereds_def kwThenCode_def
  codeThenKw_def kw_def optDashSpace_def isSep_def codeChunk_def gapRe_def candidate_def
  normalizeDigits_def

lemmas strip_eval = sourcesBody_def stripHtml_def replaceAll_def replaceFrom.simps scriptRe_def
  styleRe_def tagRe_def nbspRe_def numericEntityRe_def namedEntityRe_def spacesRe_def
  charOfDigits_def natOfDigits_def

section \<open>Properties of the quoted-printable decoder\<close>






section \<open>Properties of the HTML sniffer\<close>























section \<open>Properties of the header parser\<close>






section \<open>Properties of the extractor\<close>

text \<open>A verification code of the data model: four to eight ASCII digits.\<close>

definition isCode :: "jsstring \<Rightarrow> bool" where
  "isCode n \<longleftrightarrow> list_all isDigit n \<and> 4 \<le> length n \<and> length n \<le> 8"

lemma normalizeDigits_code: "normalizeDigits s = [] \<or> isCode (normalizeDigits s)"
  by (simp add: normalizeDigits_def isCode_def Let_def list_all_iff)

lemma candidate_code: "candidate r s = [] \<or> isCode (candidate r s)"
proof (cases "matchGroups r s")
  case None
  then show ?thesis by (simp add: candidate_def)
next
  case (Some g)
  then show ?thesis
    using normalizeDigits_code by (cases "g 1") (simp_all add: candidate_def)
qed

lemma firstAccepted_code: "firstAccepted ok rs s = Some n \<Longrightarrow> isCode n"
proof (induction rs)
  case Nil
  then show ?case by simp
next
  case (Cons r rs)
  show ?case
  proof (cases "candidate r s \<noteq> [] \<and> ok (candidate r s)")
    case True
    with Cons.prems have "n = candidate r s" by simp
    with True candidate_code [of r s] show ?thesis by auto
  next
    case False
    with Cons show ?thesis by auto
  qed
qed

lemma extractFrom_code: "extractFrom R subj body = [] \<or> isCode (extractFrom R subj body)"
  by (auto simp: extractFrom_def split: option.splits dest: firstAccepted_code)

text \<open>
  C8. For every object given to it, with each field missing, \<open>null\<close> or a string, the
  extractor returns the empty string or a string of four to eight ASCII digits.
\<close>

theorem extractVerificationCode_digits:
  "\<exists>out. extractVerificationCode R (ArgObject c) = Inr out \<and> (out = [] \<or> isCode out)"
  using extractFrom_code by (simp add: extractVerificationCode_def)

theorem extractVerificationCode_digits_witness:
  "extractVerificationCode exampleRuntime
      (ArgObject \<lparr>subject = Undefined, text' = Str (js ''code 12-34''), html = Null\<rparr>)
     = Inr (js ''1234'')
   \<and> isCode (js ''1234'')"
proof -
  have b: "sourcesBody exampleRuntime (js ''code 12-34'') [] = js ''code 12-34''"
    by (simp add: strip_eval regex_eval string_eval)
  have s1: "candidate (kwThenCode 20) [] = []" and s2: "candidate (codeThenKw 20) [] = []"
    by (simp_all add: pattern_eval regex_eval)
  have c: "candidate (kwThenCode 30) (js ''code 12-34'') = js ''1234''"
    by (simp add: pattern_eval regex_eval)
  have ne: "js ''1234'' \<noteq> []" by (simp add: js_def)
  have a: "extractVerificationCode exampleRuntime
      (ArgObject \<lparr>subject = Undefined, text' = Str (js ''code 12-34''), html = Null\<rparr>)
     = Inr (js ''1234'')"
    by (simp add: extractVerificationCode_def extractFrom_def strOr_def subjectOrdereds_def
        bodyOrdereds_def b s1 s2 c ne)
  from extractVerificationCode_digits [of exampleRuntime
      "\<lparr>subject = Undefined, text' = Str (js ''code 12-34''), html = Null\<rparr>"] a ne
  have "isCode (js ''1234'')" by auto
  with a show ?thesis by simp
qed

text \<open>The body corpus as the claim states it: the stripped HTML first, then the text.\<close>

definition claimedBody :: "runtime \<Rightarrow> jsstring \<Rightarrow> jsstring \<Rightarrow> jsstring" where
  "claimedBody R textBody htmlRaw = trim (stripHtml R htmlRaw @ [32] @ textBody)"

lemma subject_patterns_empty: "firstAccepted ok subjectOrdereds [] = None"
  by (simp add: pattern_eval regex_eval)

text \<open>
  C3, as amended. The subject is searched first and on its own: a candidate found in the
  subject is the result whatever the text and the HTML are, and a subject without a
  candidate leaves the result to the body alone. The body corpus is the text, a space and
  the stripped HTML, trimmed: the text comes before the stripped HTML.
\<close>

theorem extractVerificationCode_subject_then_body:
  "(firstAccepted (\<lambda>n. True) subjectOrdereds (strOr (subject c)) = Some n \<longrightarrow>
      extractVerificationCode R (ArgObject c) = Inr n)
   \<and> (firstAccepted (\<lambda>n. True) subjectOrdereds (strOr (subject c)) = None \<longrightarrow>
        extractVerificationCode R (ArgObject c)
          = extractVerificationCode R (ArgObject (c\<lparr>subject := Undefined\<rparr>)))
   \<and> extractVerificationCode R (ArgObject c)
       = Inr (extractFrom R (strOr (subject c))
               (trim (strOr (text' c) @ [32] @ stripHtml R (strOr (html c)))))"
  by (simp add: extractVerificationCode_def extractFrom_def sourcesBody_def strOr_def
      subject_patterns_empty)

theorem extractVerificationCode_subject_then_body_witness:
  "extractVerificationCode exampleRuntime
      (ArgObject \<lparr>subject = Str (js ''code 9090''), text' = Str (js ''code 1111''), html = Undefined\<rparr>)
     = Inr (js ''9090'')"
proof -
  have c: "candidate (kwThenCode 20) (js ''code 9090'') = js ''9090''"
    by (simp add: pattern_eval regex_eval)
  have ne: "js ''9090'' \<noteq> []" by (simp add: js_def)
  have f: "firstAccepted (\<lambda>n. True) subjectOrdereds
      (strOr (subject \<lparr>subject = Str (js ''code 9090''), text' = Str (js ''code 1111''), html = Undefined\<rparr>))
      = Some (js ''9090'')"
    by (simp add: strOr_def subjectOrdereds_def c ne)
  from extractVerificationCode_subject_then_body [of
      "\<lparr>subject = Str (js ''code 9090''), text' = Str (js ''code 1111''), html = Undefined\<rparr>"
      "js ''9090''" exampleRuntime] f
  show ?thesis by blast
qed

text \<open>
  C3 as the claim states it fails where text and HTML both hold a code: the corpus starts
  with the text, and the code of the text is returned; with the corpus of the claim it would
  be the code of the HTML.
\<close>

theorem sourcesBody_order_counterexample:
  "sourcesBody exampleRuntime (js ''code 1111'') (js ''<p>code 2222</p>'') = js ''code 1111 code 2222''
   \<and> claimedBody exampleRuntime (js ''code 1111'') (js ''<p>code 2222</p>'') = js ''code 2222 code 1111''
   \<and> extractVerificationCode exampleRuntime
        (ArgObject \<lparr>subject = Str [], text' = Str (js ''code 1111''), html = Str (js ''<p>code 2222</p>'')\<rparr>)
       = Inr (js ''1111'')
   \<and> extractFrom exampleRuntime [] (js ''code 2222 code 1111'') = js ''2222''"
proof -
  have h: "stripHtml exampleRuntime (js ''<p>code 2222</p>'') = js ''code 2222''"
    by (simp add: strip_eval regex_eval string_eval)
  have b: "sourcesBody exampleRuntime (js ''code 1111'') (js ''<p>code 2222</p>'') = js ''code 1111 code 2222''"
    unfolding sourcesBody_def h by (simp add: regex_eval string_eval)
  have cb: "claimedBody exampleRuntime (js ''code 1111'') (js ''<p>code 2222</p>'') = js ''code 2222 code 1111''"
    unfolding claimedBody_def h by (simp add: regex_eval string_eval)
  have c1: "candidate (kwThenCode 30) (js ''code 1111 code 2222'') = js ''1111''"
    by (simp add: pattern_eval regex_eval)
  have c2: "candidate (kwThenCode 30) (js ''code 2222 code 1111'') = js ''2222''"
    by (simp add: pattern_eval regex_eval)
  have ne: "js ''1111'' \<noteq> []" "js ''2222'' \<noteq> []" by (simp_all add: js_def)
  have e1: "extractVerificationCode exampleRuntime
        (ArgObject \<lparr>subject = Str [], text' = Str (js ''code 1111''), html = Str (js ''<p>code 2222</p>'')\<rparr>)
       = Inr (js ''1111'')"
    by (simp add: extractVerificationCode_def extractFrom_def strOr_def subject_patterns_empty
        bodyOrdereds_def b c1 ne)
  have e2: "extractFrom exampleRuntime [] (js ''code 2222 code 1111'') = js ''2222''"
    by (simp add: extractFrom_def subject_patterns_empty bodyOrdereds_def c2 ne)
  from b cb e1 e2 show ?thesis by simp
qed

section \<open>The false-positive filter on a lower-case word\<close>

text \<open>
  The filter as the claim words it: the third rule asks for a capitalized word after the
  digits, that is the address pattern without the \<open>i\<close> flag.
\<close>

definition isUpper :: "jschar \<Rightarrow> bool" where
  "isUpper c \<longleftrightarrow> 65 \<le> c \<and> c \<le> 90"

definition isLower :: "jschar \<Rightarrow> bool" where
  "isLower c \<longleftrightarrow> 97 \<le> c \<and> c \<le> 122"

definition capitalizedAddressPattern :: "jsstring \<Rightarrow> re" where
  "capitalizedAddressPattern digits = seqs [WordB, str digits, rplus (Chr isSpace), Chr isUpper,
     rplus (Chr isLower), Alt (lit 44) WordB]"

definition claimedFilter :: "runtime \<Rightarrow> jsstring \<Rightarrow> jsstring \<Rightarrow> bool" where
  "claimedFilter R digits context =
     (if digits = [] then True
      else if length digits = 4 \<and> 2000 \<le> natOfDigits digits \<and> natOfDigits digits \<le> 2099 then True
      else if length digits = 5 \<and>
           (includesStr (toLowerCase R context) (js ''address'') \<or>
            includesStr (toLowerCase R context) (js ''street'') \<or>
            includesStr (toLowerCase R context) (js ''zip'') \<or>
            includesStr (toLowerCase R context) (js ''postal'') \<or>
            test wordThenFiveRe context) then True
      else if test (capitalizedAddressPattern digits) context then True
      else False)"

text \<open>
  C5. The claim fails on the code: six digits found by the loose tier and followed by the
  lower-case word \<open>is\<close> are rejected, because the address pattern is compiled with the
  \<open>i\<close> flag and its \<open>[A-Z]\<close> matches a lower-case letter; the extractor returns the empty
  string. The filter of the claim accepts them.
\<close>

theorem isLikelyNonVerificationCode_lowercase_word:
  "candidate (kwThenCode 80) (js ''code (use it to sign in on our site) 123456 is here'') = js ''123456''
   \<and> isLikelyNonVerificationCode exampleRuntime (js ''123456'')
        (js ''code (use it to sign in on our site) 123456 is here'')
   \<and> \<not> claimedFilter exampleRuntime (js ''123456'')
        (js ''code (use it to sign in on our site) 123456 is here'')
   \<and> extractVerificationCode exampleRuntime
        (ArgObject \<lparr>subject = Str [],
           text' = Str (js ''code (use it to sign in on our site) 123456 is here''),
           html = Str []\<rparr>) = Inr []"
proof -
  have b: "sourcesBody exampleRuntime (js ''code (use it to sign in on our site) 123456 is here'') []
      = js ''code (use it to sign in on our site) 123456 is here''"
    by (simp add: strip_eval regex_eval string_eval)
  have t1: "candidate (kwThenCode 30) (js ''code (use it to sign in on our site) 123456 is here'') = []"
    by (simp add: pattern_eval regex_eval)
  have t2: "candidate (codeThenKw 30) (js ''code (use it to sign in on our site) 123456 is here'') = []"
    by (simp add: pattern_eval regex_eval)
  have l1: "candidate (kwThenCode 80) (js ''code (use it to sign in on our site) 123456 is here'')
      = js ''123456''"
    by (simp add: pattern_eval regex_eval)
  have l2: "candidate (codeThenKw 80) (js ''code (use it to sign in on our site) 123456 is here'') = []"
    by (simp add: pattern_eval regex_eval)
  have f: "isLikelyNonVerificationCode exampleRuntime (js ''123456'')
        (js ''code (use it to sign in on our site) 123456 is here'')"
    by (simp add: isLikelyNonVerificationCode_def addressPattern_def natOfDigits_def regex_eval)
  have cf: "\<not> claimedFilter exampleRuntime (js ''123456'')
        (js ''code (use it to sign in on our site) 123456 is here'')"
    by (simp add: claimedFilter_def capitalizedAddressPattern_def natOfDigits_def isUpper_def
        isLower_def regex_eval)
  have ne: "js ''123456'' \<noteq> []" by (simp add: js_def)
  have e: "extractVerificationCode exampleRuntime
        (ArgObject \<lparr>subject = Str [],
           text' = Str (js ''code (use it to sign in on our site) 123456 is here''),
           html = Str []\<rparr>) = Inr []"
    by (simp add: extractVerificationCode_def extractFrom_def strOr_def subject_patterns_empty
        bodyOrdereds_def looseBodyOrdereds_def b t1 t2 l1 l2 f ne)
  from l1 f cf e show ?thesis by simp
qed

section \<open>Properties of the matcher\<close>

text \<open>
  Every way a stack of patterns can match, in the order the backtracking matcher would try
  them: \<open>run\<close> returns the first.
\<close>

function (sequential) allRuns :: "frame list \<Rightarrow> mstate \<Rightarrow> mstate list" where
  "allRuns [] st = [st]"
| "allRuns (Todo (Chr p) # k) (i, pv, [], cp) = []"
| "allRuns (Todo (Chr p) # k) (i, pv, c # cs, cp) =
     (if p c then allRuns k (Suc i, Some c, cs, cp) else [])"
| "allRuns (Todo Eps # k) st = allRuns k st"
| "allRuns (Todo (Seq a b) # k) st = allRuns (Todo a # Todo b # k) st"
| "allRuns (Todo (Alt a b) # k) st = allRuns (Todo a # k) st @ allRuns (Todo b # k) st"
| "allRuns (Todo (Rep mn mx g a) # k) (i, pv, cs, cp) =
     (if mx = Some 0 then allRuns k (i, pv, cs, cp)
      else if 0 < mn then allRuns (Todo a # RepChk i mn mx g a # k) (i, pv, cs, cp)
      else if g then
        allRuns (Todo a # RepChk i mn mx g a # k) (i, pv, cs, cp) @ allRuns k (i, pv, cs, cp)
      else
        allRuns k (i, pv, cs, cp) @ allRuns (Todo a # RepChk i mn mx g a # k) (i, pv, cs, cp))"
| "allRuns (RepChk p mn mx g a # k) (i, pv, cs, cp) =
     (if mn = 0 \<and> i = p then []
      else allRuns (Todo (Rep (mn - 1) (decr mx) g a) # k) (i, pv, cs, cp))"
| "allRuns (Todo (Grp n a) # k) (i, pv, cs, cp) = allRuns (Todo a # GrpEnd n i # k) (i, pv, cs, cp)"
| "allRuns (GrpEnd n p # k) (i, pv, cs, cp) = allRuns k (i, pv, cs, (n, p, i) # cp)"
| "allRuns (Todo (Ahead pos a) # k) (i, pv, cs, cp) =
     (case allRuns [Todo a] (i, pv, cs, cp) of
        (i', pv', cs', cp') # _ \<Rightarrow> if pos then allRuns k (i, pv, cs, cp') else []
      | [] \<Rightarrow> if pos then [] else allRuns k (i, pv, cs, cp))"
| "allRuns (Todo (BehindChr pos p) # k) (i, pv, cs, cp) =
     (if (case pv of None \<Rightarrow> False | Some c \<Rightarrow> p c) = pos then allRuns k (i, pv, cs, cp)
      else [])"
| "allRuns (Todo Bol # k) (i, pv, cs, cp) = (if i = 0 then allRuns k (i, pv, cs, cp) else [])"
| "allRuns (Todo Eol # k) (i, pv, cs, cp) = (if cs = [] then allRuns k (i, pv, cs, cp) else [])"
| "allRuns (Todo WordB # k) (i, pv, cs, cp) =
     (if (case pv of None \<Rightarrow> False | Some c \<Rightarrow> isWord c)
          \<noteq> (case cs of [] \<Rightarrow> False | c # _ \<Rightarrow> isWord c)
      then allRuns k (i, pv, cs, cp) else [])"
  by pat_completeness auto
termination
  apply (relation "measures [\<lambda>(fs, i, pv, cs, cp). length cs, \<lambda>(fs, i, pv, cs, cp). wstack i fs]")
  apply (auto simp: wstack_def)
  apply (case_tac [!] mn)
  apply auto
  done

declare allRuns.simps [simp del]

definition firstOf :: "'a list \<Rightarrow> 'a option" where
  "firstOf xs = (case xs of [] \<Rightarrow> None | x # _ \<Rightarrow> Some x)"

lemma firstOf_append: "firstOf (xs @ ys) = (case firstOf xs of Some r \<Rightarrow> Some r | None \<Rightarrow> firstOf ys)"
  by (cases xs) (simp_all add: firstOf_def)

lemma firstOf_simps [simp]: "firstOf [] = None" "firstOf (x # xs) = Some x"
  by (simp_all add: firstOf_def)

lemma run_allRuns: "run fs st = firstOf (allRuns fs st)"
proof (induction fs st rule: allRuns.induct)
  case (11 pos a k i pv cs cp)
  show ?case
  proof (cases "allRuns [Todo a] (i, pv, cs, cp)")
    case Nil
    from "11.IH"(1) Nil have r: "run [Todo a] (i, pv, cs, cp) = None"
      by simp
    show ?thesis
    proof (cases pos)
      case True
      with Nil r show ?thesis by (simp add: run.simps allRuns.simps)
    next
      case False
      with Nil r "11.IH"(2) [OF Nil False] show ?thesis by (simp add: run.simps allRuns.simps)
    qed
  next
    case (Cons e es)
    obtain i' pv' cs' cp' where e: "e = (i', pv', cs', cp')" by (cases e)
    from "11.IH"(1) Cons e have r: "run [Todo a] (i, pv, cs, cp) = Some (i', pv', cs', cp')"
      by simp
    show ?thesis
    proof (cases pos)
      case True
      with "11.IH"(3) [OF Cons [unfolded e] refl refl refl True] Cons e r show ?thesis
        by (simp add: run.simps allRuns.simps)
    next
      case False
      with Cons e r show ?thesis by (simp add: run.simps allRuns.simps)
    qed
  qed
qed (auto simp: run.simps allRuns.simps firstOf_append split: option.splits)


text \<open>The matches of a stack are the matches of its lower part after those of its upper part.\<close>

lemma allRuns_append: "allRuns (fs @ k) st = concat (map (allRuns k) (allRuns fs st))"
proof (induction fs st rule: allRuns.induct)
  case (11 pos a k' i pv cs cp)
  show ?case
  proof (cases "allRuns [Todo a] (i, pv, cs, cp)")
    case Nil
    show ?thesis
    proof (cases pos)
      case True
      with Nil show ?thesis by (simp add: allRuns.simps)
    next
      case False
      with Nil "11.IH"(2) [OF Nil False] show ?thesis by (simp add: allRuns.simps)
    qed
  next
    case (Cons e es)
    obtain i' pv' cs' cp' where e: "e = (i', pv', cs', cp')" by (cases e)
    show ?thesis
    proof (cases pos)
      case True
      with "11.IH"(3) [OF Cons [unfolded e] refl refl refl True] Cons e show ?thesis
        by (simp add: allRuns.simps)
    next
      case False
      with Cons e show ?thesis by (simp add: allRuns.simps)
    qed
  qed
qed (auto simp: allRuns.simps)

text \<open>A later state of the same input: some code units further on.\<close>

fun later :: "mstate \<Rightarrow> mstate \<Rightarrow> bool" where
  "later (i, pv, cs, cp) (i', pv', cs', cp') \<longleftrightarrow>
     (\<exists>pre. cs = pre @ cs' \<and> i' = i + length pre
        \<and> pv' = (if pre = [] then pv else Some (last pre)))"

lemma later_refl: "later (i, pv, cs, cp) (i, pv, cs, cp')"
  by (simp add: exI [of _ "[]"])

lemma later_step:
  assumes "later (Suc i, Some c, cs, cp) st'"
  shows "later (i, pv, c # cs, cp0) st'"
proof -
  obtain i' pv' cs' cp' where st': "st' = (i', pv', cs', cp')" by (cases st')
  from assms obtain pre where p: "cs = pre @ cs'" "i' = Suc i + length pre"
      "pv' = (if pre = [] then Some c else Some (last pre))"
    unfolding st' by auto
  have "c # cs = (c # pre) @ cs' \<and> i' = i + length (c # pre)
      \<and> pv' = (if c # pre = [] then pv else Some (last (c # pre)))"
    using p by simp
  then show ?thesis unfolding st' later.simps by blast
qed

lemma later_caps: "later (i, pv, cs, cp) st' \<Longrightarrow> later (i, pv, cs, cp0) st'"
  by (cases st') simp

lemma later_cases:
  assumes "later (i, pv, cs, cp) (i', pv', cs', cp')"
  shows "(i' = i \<and> pv' = pv \<and> cs' = cs)
     \<or> (\<exists>c cs0. cs = c # cs0 \<and> later (Suc i, Some c, cs0, cp) (i', pv', cs', cp'))"
proof -
  from assms obtain pre where p: "cs = pre @ cs'" "i' = i + length pre"
      "pv' = (if pre = [] then pv else Some (last pre))"
    by auto
  show ?thesis
  proof (cases pre)
    case Nil
    with p show ?thesis by simp
  next
    case (Cons c pre')
    have "pre' @ cs' = pre' @ cs' \<and> i' = Suc i + length pre'
        \<and> pv' = (if pre' = [] then Some c else Some (last pre'))"
      using p Cons by simp
    then have "later (Suc i, Some c, pre' @ cs', cp) (i', pv', cs', cp')"
      unfolding later.simps by blast
    with p Cons show ?thesis by simp
  qed
qed

lemma later_trans:
  assumes "later st st'" and "later st' st''"
  shows "later st st''"
proof -
  obtain i pv cs cp where st: "st = (i, pv, cs, cp)" by (cases st)
  obtain i' pv' cs' cp' where st': "st' = (i', pv', cs', cp')" by (cases st')
  obtain i'' pv'' cs'' cp'' where st'': "st'' = (i'', pv'', cs'', cp'')" by (cases st'')
  from assms(1) obtain p where p: "cs = p @ cs'" "i' = i + length p"
      "pv' = (if p = [] then pv else Some (last p))"
    unfolding st st' by auto
  from assms(2) obtain q where q: "cs' = q @ cs''" "i'' = i' + length q"
      "pv'' = (if q = [] then pv' else Some (last q))"
    unfolding st' st'' by auto
  have "cs = (p @ q) @ cs'' \<and> i'' = i + length (p @ q)
      \<and> pv'' = (if p @ q = [] then pv else Some (last (p @ q)))"
    using p q by simp
  then show ?thesis unfolding st st'' later.simps by blast
qed

declare later.simps [simp del]

lemma allRuns_later: "st' \<in> set (allRuns fs st) \<Longrightarrow> later st st'"
proof (induction fs st rule: allRuns.induct)
  case (1 st)
  obtain i pv cs cp where st: "st = (i, pv, cs, cp)" by (cases st)
  from "1.prems" show ?case
    unfolding st using later_refl by (simp add: allRuns.simps)
next
  case (3 p k i pv c cs cp)
  then show ?case
    by (auto simp: allRuns.simps split: if_splits intro: later_step)
next
  case (10 n p k i pv cs cp)
  then show ?case
    by (auto simp: allRuns.simps intro: later_caps)
next
  case (11 pos a k i pv cs cp)
  show ?case
  proof (cases "allRuns [Todo a] (i, pv, cs, cp)")
    case Nil
    with "11.prems" have np: "\<not> pos" and m: "st' \<in> set (allRuns k (i, pv, cs, cp))"
      by (auto simp: allRuns.simps split: if_splits)
    from "11.IH"(2) [OF Nil np m] show ?thesis .
  next
    case (Cons e es)
    obtain i' pv' cs' cp' where e: "e = (i', pv', cs', cp')" by (cases e)
    from "11.prems" Cons e have ps: pos and m: "st' \<in> set (allRuns k (i, pv, cs, cp'))"
      by (auto simp: allRuns.simps split: if_splits)
    from "11.IH"(3) [OF Cons [unfolded e] refl refl refl ps m] show ?thesis
      by (rule later_caps)
  qed
qed (auto simp: allRuns.simps split: if_splits)

text \<open>The groups captured so far have no part in whether and where a pattern matches.\<close>

definition bare :: "mstate \<Rightarrow> nat \<times> jschar option \<times> jsstring" where
  "bare st = (fst st, fst (snd st), fst (snd (snd st)))"

lemma bare_eq: "bare (i, pv, cs, cp) = bare st' \<longleftrightarrow> (\<exists>cp'. st' = (i, pv, cs, cp'))"
  by (cases st') (auto simp: bare_def)

lemma allRuns_bare:
  "bare st = bare st' \<Longrightarrow> map bare (allRuns fs st) = map bare (allRuns fs st')"
proof (induction fs st arbitrary: st' rule: allRuns.induct)
  case (1 st)
  then show ?case by (simp add: allRuns.simps)
next
  case (2 p k i pv cp)
  then show ?case by (auto simp: allRuns.simps bare_eq)
next
  case (3 p k i pv c cs cp)
  from "3.prems" obtain cp' where st': "st' = (i, pv, c # cs, cp')" by (auto simp: bare_eq)
  show ?case
    unfolding st' using "3.IH" [of "(Suc i, Some c, cs, cp')"]
    by (simp add: allRuns.simps bare_def)
next
  case (4 k st)
  then show ?case by (simp add: allRuns.simps)
next
  case (5 a b k st)
  then show ?case by (simp add: allRuns.simps)
next
  case (6 a b k st)
  then show ?case by (simp add: allRuns.simps)
next
  case (7 mn mx g a k i pv cs cp)
  from "7.prems" obtain cp' where st': "st' = (i, pv, cs, cp')" by (auto simp: bare_eq)
  have b: "bare (i, pv, cs, cp) = bare (i, pv, cs, cp')" by (simp add: bare_def)
  show ?case
    unfolding st'
    using "7.IH"(1) [OF _ b] "7.IH"(2) [OF _ _ b] "7.IH"(3) [OF _ _ _ b] "7.IH"(4) [OF _ _ _ b]
      "7.IH"(5) [OF _ _ _ b] "7.IH"(6) [OF _ _ _ b]
    by (simp add: allRuns.simps)
next
  case (8 p mn mx g a k i pv cs cp)
  from "8.prems" obtain cp' where st': "st' = (i, pv, cs, cp')" by (auto simp: bare_eq)
  have b: "bare (i, pv, cs, cp) = bare (i, pv, cs, cp')" by (simp add: bare_def)
  show ?case
    unfolding st' using "8.IH" [OF _ b] by (simp add: allRuns.simps(8))
next
  case (9 n a k i pv cs cp)
  from "9.prems" obtain cp' where st': "st' = (i, pv, cs, cp')" by (auto simp: bare_eq)
  have b: "bare (i, pv, cs, cp) = bare (i, pv, cs, cp')" by (simp add: bare_def)
  show ?case
    unfolding st' using "9.IH" [OF b] by (simp add: allRuns.simps)
next
  case (10 n p k i pv cs cp)
  from "10.prems" obtain cp' where st': "st' = (i, pv, cs, cp')" by (auto simp: bare_eq)
  have b: "bare (i, pv, cs, (n, p, i) # cp) = bare (i, pv, cs, (n, p, i) # cp')"
    by (simp add: bare_def)
  show ?case
    unfolding st' using "10.IH" [OF b] by (simp add: allRuns.simps)
next
  case (11 pos a k i pv cs cp)
  from "11.prems" obtain cp' where st': "st' = (i, pv, cs, cp')" by (auto simp: bare_eq)
  have b: "bare (i, pv, cs, cp) = bare (i, pv, cs, cp')" by (simp add: bare_def)
  have sub: "map bare (allRuns [Todo a] (i, pv, cs, cp)) = map bare (allRuns [Todo a] (i, pv, cs, cp'))"
    using "11.IH"(1) [OF b] .
  show ?case
  proof (cases "allRuns [Todo a] (i, pv, cs, cp)")
    case Nil
    with sub have n': "allRuns [Todo a] (i, pv, cs, cp') = []" by simp
    show ?thesis
    proof (cases pos)
      case True
      with Nil n' show ?thesis unfolding st' by (simp add: allRuns.simps)
    next
      case False
      with Nil n' "11.IH"(2) [OF Nil False b] show ?thesis
        unfolding st' by (simp add: allRuns.simps)
    qed
  next
    case (Cons e es)
    obtain i1 pv1 cs1 cp1 where e: "e = (i1, pv1, cs1, cp1)" by (cases e)
    from sub Cons obtain e' es' where c': "allRuns [Todo a] (i, pv, cs, cp') = e' # es'"
      by (cases "allRuns [Todo a] (i, pv, cs, cp')") auto
    obtain i2 pv2 cs2 cp2 where e': "e' = (i2, pv2, cs2, cp2)" by (cases e')
    have b2: "bare (i, pv, cs, cp1) = bare (i, pv, cs, cp2)" by (simp add: bare_def)
    show ?thesis
    proof (cases pos)
      case True
      with "11.IH"(3) [OF Cons [unfolded e] refl refl refl True b2] Cons e c' e' show ?thesis
        unfolding st' by (simp add: allRuns.simps)
    next
      case False
      with Cons e c' e' show ?thesis unfolding st' by (simp add: allRuns.simps)
    qed
  qed
next
  case (12 pos p k i pv cs cp)
  from "12.prems" obtain cp' where st': "st' = (i, pv, cs, cp')" by (auto simp: bare_eq)
  have b: "bare (i, pv, cs, cp) = bare (i, pv, cs, cp')" by (simp add: bare_def)
  show ?case
    unfolding st' using "12.IH" [OF _ b] by (simp add: allRuns.simps)
next
  case (13 k i pv cs cp)
  from "13.prems" obtain cp' where st': "st' = (i, pv, cs, cp')" by (auto simp: bare_eq)
  have b: "bare (i, pv, cs, cp) = bare (i, pv, cs, cp')" by (simp add: bare_def)
  show ?case
    unfolding st' using "13.IH" [OF _ b] by (simp add: allRuns.simps)
next
  case (14 k i pv cs cp)
  from "14.prems" obtain cp' where st': "st' = (i, pv, cs, cp')" by (auto simp: bare_eq)
  have b: "bare (i, pv, cs, cp) = bare (i, pv, cs, cp')" by (simp add: bare_def)
  show ?case
    unfolding st' using "14.IH" [OF _ b] by (simp add: allRuns.simps)
next
  case (15 k i pv cs cp)
  from "15.prems" obtain cp' where st': "st' = (i, pv, cs, cp')" by (auto simp: bare_eq)
  have b: "bare (i, pv, cs, cp) = bare (i, pv, cs, cp')" by (simp add: bare_def)
  show ?case
    unfolding st' using "15.IH" [OF _ b] by (simp add: allRuns.simps)
qed

lemma run_None_iff: "run fs st = None \<longleftrightarrow> allRuns fs st = []"
  by (cases "allRuns fs st") (simp_all add: run_allRuns)

lemma run_caps: "run fs (i, pv, cs, cp) = None \<longleftrightarrow> run fs (i, pv, cs, cp') = None"
proof -
  have "map bare (allRuns fs (i, pv, cs, cp)) = map bare (allRuns fs (i, pv, cs, cp'))"
    by (rule allRuns_bare) (simp add: bare_def)
  then have "allRuns fs (i, pv, cs, cp) = [] \<longleftrightarrow> allRuns fs (i, pv, cs, cp') = []"
    by (metis map_is_Nil_conv)
  then show ?thesis
    by (simp add: run_None_iff)
qed

text \<open>If a stack matches, so does its upper part, and its lower part from a later state.\<close>

lemma run_lower:
  assumes "run (fs @ k) st \<noteq> None"
  shows "\<exists>st'. st' \<in> set (allRuns fs st) \<and> later st st' \<and> run k st' \<noteq> None"
proof -
  from assms have "concat (map (allRuns k) (allRuns fs st)) \<noteq> []"
    by (simp add: run_None_iff allRuns_append)
  then obtain st' where m: "st' \<in> set (allRuns fs st)" and ne: "allRuns k st' \<noteq> []"
    by (auto simp: concat_eq_Nil_conv)
  from ne have "run k st' \<noteq> None"
    by (simp add: run_None_iff)
  with allRuns_later [OF m] m show ?thesis by blast
qed

lemma run_upper: "run (fs @ k) st \<noteq> None \<Longrightarrow> run fs st \<noteq> None"
proof -
  assume "run (fs @ k) st \<noteq> None"
  from run_lower [OF this] obtain st' where "st' \<in> set (allRuns fs st)" by blast
  then have "allRuns fs st \<noteq> []" by auto
  then show ?thesis by (simp add: run_None_iff)
qed

lemma run_seq_upper:
  assumes "run (Todo (Seq a b) # k) st \<noteq> None"
  shows "run [Todo a] st \<noteq> None"
proof -
  from assms have "run ([Todo a] @ (Todo b # k)) st \<noteq> None"
    by (simp only: run.simps append.simps simp_thms)
  from run_upper [OF this] show ?thesis .
qed

lemma run_seq_lower:
  assumes "run (Todo (Seq a b) # k) st \<noteq> None"
  shows "\<exists>st'. later st st' \<and> run (Todo b # k) st' \<noteq> None"
proof -
  from assms have "run ([Todo a] @ (Todo b # k)) st \<noteq> None"
    by (simp only: run.simps append.simps simp_thms)
  from run_lower [OF this] show ?thesis by blast
qed

text \<open>The search finds a match wherever the pattern matches from a later state.\<close>

lemma searchFrom_None:
  "searchFrom r st = None \<Longrightarrow> later st st' \<Longrightarrow> run [Todo r] st' = None"
proof (induction r st rule: searchFrom.induct)
  case (1 r i pv cp)
  obtain i' pv' cs' cp' where st': "st' = (i', pv', cs', cp')" by (cases st')
  from "1.prems"(2) [unfolded st'] have "i' = i \<and> pv' = pv \<and> cs' = []"
    using later_cases [of i pv "[]" cp i' pv' cs' cp'] by auto
  moreover from "1.prems"(1) have "run [Todo r] (i, pv, [], []) = None"
    by (simp split: option.splits)
  ultimately show ?case
    unfolding st' using run_caps [of "[Todo r]" i pv "[]" "[]" cp'] by simp
next
  case (2 r i pv c cs cp)
  obtain i' pv' cs' cp' where st': "st' = (i', pv', cs', cp')" by (cases st')
  from "2.prems"(1) have here: "run [Todo r] (i, pv, c # cs, []) = None"
    and rest: "searchFrom r (Suc i, Some c, cs, cp) = None"
    by (simp_all split: option.splits)
  from "2.prems"(2) [unfolded st'] later_cases [of i pv "c # cs" cp i' pv' cs' cp']
  consider "i' = i \<and> pv' = pv \<and> cs' = c # cs"
    | "later (Suc i, Some c, cs, cp) (i', pv', cs', cp')"
    by auto
  then show ?case
  proof cases
    case 1
    with here show ?thesis
      unfolding st' using run_caps [of "[Todo r]" i pv "c # cs" "[]" cp'] by simp
  next
    case 2
    with "2.IH" [OF here rest] show ?thesis unfolding st' by simp
  qed
qed

lemma searchFrom_Some:
  "searchFrom r st = Some (b, e) \<Longrightarrow> later st b \<and> run [Todo r] b = Some e"
proof (induction r st rule: searchFrom.induct)
  case (1 r i pv cp)
  then show ?case by (auto split: option.splits intro: later_refl)
next
  case (2 r i pv c cs cp)
  show ?case
  proof (cases "run [Todo r] (i, pv, c # cs, [])")
    case None
    with "2.prems" have "searchFrom r (Suc i, Some c, cs, cp) = Some (b, e)" by simp
    from "2.IH" [OF None this] show ?thesis using later_step by blast
  next
    case (Some e')
    with "2.prems" show ?thesis by (auto intro: later_refl)
  qed
qed

text \<open>
  A pattern that starts with another, or ends with it, matches only in a text where that
  other pattern matches.
\<close>

lemma test_later:
  assumes "later (0, None, s, []) st" and "run [Todo r] st \<noteq> None"
  shows "test r s"
proof (rule ccontr)
  assume "\<not> test r s"
  then have "searchFrom r (0, None, s, []) = None"
    unfolding test_def search_def by blast
  from searchFrom_None [OF this assms(1)] assms(2) show False by blast
qed

lemma test_seq_first: "test (Seq a b) s \<Longrightarrow> test a s"
proof -
  assume "test (Seq a b) s"
  then obtain st e where s: "searchFrom (Seq a b) (0, None, s, []) = Some (st, e)"
    unfolding test_def search_def by (cases "searchFrom (Seq a b) (0, None, s, [])") auto
  from searchFrom_Some [OF s] have l: "later (0, None, s, []) st"
    and r: "run [Todo (Seq a b)] st \<noteq> None" by simp_all
  from run_seq_upper [OF r] have "run [Todo a] st \<noteq> None" .
  with l show "test a s" by (rule test_later)
qed

section \<open>Texts without a keyword\<close>

lemma test_seq_last: "test (Seq a b) s \<Longrightarrow> test b s"
proof -
  assume "test (Seq a b) s"
  then obtain st e where s: "searchFrom (Seq a b) (0, None, s, []) = Some (st, e)"
    unfolding test_def search_def by (cases "searchFrom (Seq a b) (0, None, s, [])") auto
  from searchFrom_Some [OF s] have l: "later (0, None, s, []) st"
    and r: "run [Todo (Seq a b)] st \<noteq> None" by simp_all
  from run_seq_lower [OF r] obtain st' where l': "later st st'" and r': "run [Todo b] st' \<noteq> None"
    by blast
  from later_trans [OF l l'] r' show "test b s" by (rule test_later)
qed

lemma kwThenCode_needs_kw: "test (kwThenCode n) s \<Longrightarrow> test kw s"
  unfolding kwThenCode_def seqs.simps by (rule test_seq_first)

lemma codeThenKw_needs_kw:
  assumes "test (codeThenKw n) s"
  shows "test kw s"
proof -
  from assms have "test (Seq (BehindChr False isDigit)
      (Seq codeChunk (Seq (Ahead False (Chr isDigit)) (Seq (gapRe n) kw)))) s"
    unfolding codeThenKw_def seqs.simps .
  then have "test (Seq codeChunk (Seq (Ahead False (Chr isDigit)) (Seq (gapRe n) kw))) s"
    by (rule test_seq_last)
  then have "test (Seq (Ahead False (Chr isDigit)) (Seq (gapRe n) kw)) s"
    by (rule test_seq_last)
  then have "test (Seq (gapRe n) kw) s"
    by (rule test_seq_last)
  then show ?thesis
    by (rule test_seq_last)
qed

lemma candidate_needs_test: "candidate r s \<noteq> [] \<Longrightarrow> test r s"
  by (auto simp: candidate_def test_def matchGroups_def split: option.splits)

lemma no_kw_no_candidate:
  assumes "\<not> test kw s"
  shows "firstAccepted ok subjectOrdereds s = None"
    and "firstAccepted ok bodyOrdereds s = None"
    and "firstAccepted ok looseBodyOrdereds s = None"
proof -
  have "candidate (kwThenCode n) s = []" "candidate (codeThenKw n) s = []" for n
    using assms kwThenCode_needs_kw codeThenKw_needs_kw candidate_needs_test by blast+
  then show "firstAccepted ok subjectOrdereds s = None"
    and "firstAccepted ok bodyOrdereds s = None"
    and "firstAccepted ok looseBodyOrdereds s = None"
    by (simp_all add: subjectOrdereds_def bodyOrdereds_def looseBodyOrdereds_def)
qed

lemma group1_needs_test: "group1 r s \<noteq> None \<Longrightarrow> test r s"
  by (auto simp: group1_def test_def matchGroups_def split: option.splits)

lemma codeRules_need_keywords:
  assumes "\<not> test keywordsRe t"
  shows "group1 codeRule1 t = None" and "digitsOfGroup codeRule2 t = None"
    and "group1 codeRule3 t = None"
proof -
  have 1: "\<not> test codeRule1 t"
    using assms test_seq_first [of keywordsRe _ t] unfolding codeRule1_def seqs.simps by blast
  have 2: "\<not> test codeRule2 t"
    using assms test_seq_first [of keywordsRe _ t] unfolding codeRule2_def seqs.simps by blast
  have 3: "\<not> test codeRule3 t"
    using assms test_seq_first [of keywordsRe _ t] unfolding codeRule3_def seqs.simps by blast
  from 1 group1_needs_test show "group1 codeRule1 t = None" by blast
  from 2 group1_needs_test have "group1 codeRule2 t = None" by blast
  then show "digitsOfGroup codeRule2 t = None" by (simp add: digitsOfGroup_def)
  from 3 group1_needs_test show "group1 codeRule3 t = None" by blast
qed

text \<open>An isolated run of exactly six digits at a position of a text.\<close>

definition isolatedSixAt :: "jsstring \<Rightarrow> nat \<Rightarrow> bool" where
  "isolatedSixAt t i \<longleftrightarrow>
     i + 6 \<le> length t \<and> list_all isDigit (take 6 (drop i t))
     \<and> (i = 0 \<or> \<not> isDigit (t ! (i - 1)))
     \<and> (i + 6 = length t \<or> \<not> isDigit (t ! (i + 6)))"

text \<open>The state of the matcher at a position of a text, before any group is captured.\<close>

definition stateAt :: "jsstring \<Rightarrow> nat \<Rightarrow> mstate" where
  "stateAt t j = (j, (if j = 0 then None else Some (t ! (j - 1))), drop j t, [])"

lemma searchFrom_first:
  assumes "i \<le> length t"
    and "run [Todo r] (stateAt t i) = Some e"
    and "\<forall>j'. j \<le> j' \<and> j' < i \<longrightarrow> run [Todo r] (stateAt t j') = None"
    and "j \<le> i"
  shows "searchFrom r (j, (if j = 0 then None else Some (t ! (j - 1))), drop j t, cp)
     = Some (stateAt t i, e)"
  using assms(3,4)
proof (induction "i - j" arbitrary: j cp)
  case 0
  then have ji: "j = i" by simp
  show ?case
  proof (cases "drop i t")
    case Nil
    with assms(2) show ?thesis
      unfolding ji by (simp add: stateAt_def)
  next
    case (Cons c cs)
    with assms(2) show ?thesis
      unfolding ji by (simp add: stateAt_def)
  qed
next
  case (Suc d)
  then have lt: "j < i" by simp
  with assms(1) have jl: "j < length t" by simp
  have dr: "drop j t = t ! j # drop (Suc j) t"
    using jl by (simp add: Cons_nth_drop_Suc)
  have here: "run [Todo r] (j, (if j = 0 then None else Some (t ! (j - 1))), t ! j # drop (Suc j) t, [])
      = None"
    using Suc.prems(1) lt dr by (auto simp: stateAt_def)
  have "searchFrom r (Suc j, (if Suc j = 0 then None else Some (t ! (Suc j - 1))), drop (Suc j) t, cp)
      = Some (stateAt t i, e)"
    using Suc.hyps(2) Suc.prems lt by (intro Suc.hyps(1)) auto
  then show ?case
    unfolding dr using here by simp
qed

lemma rep_exact:
  "run (Todo (Rep n (Some n) True (Chr P)) # k) (i, pv, cs, cp) =
     (if n \<le> length cs \<and> list_all P (take n cs)
      then run k (i + n, (if n = 0 then pv else Some (cs ! (n - 1))), drop n cs, cp)
      else None)"
proof (induction n arbitrary: i pv cs)
  case 0
  show ?case by (simp add: run.simps)
next
  case (Suc n)
  show ?case
  proof (cases cs)
    case Nil
    then show ?thesis by (simp add: run.simps)
  next
    case (Cons c cs')
    show ?thesis
    proof (cases "P c")
      case False
      with Cons show ?thesis by (simp add: run.simps)
    next
      case True
      have "run (Todo (Rep (Suc n) (Some (Suc n)) True (Chr P)) # k) (i, pv, c # cs', cp)
          = run (Todo (Rep n (Some n) True (Chr P)) # k) (Suc i, Some c, cs', cp)"
        using True by (simp add: run.simps(3,7,8) decr_def)
      also have "\<dots> = (if n \<le> length cs' \<and> list_all P (take n cs')
          then run k (Suc i + n, (if n = 0 then Some c else Some (cs' ! (n - 1))), drop n cs', cp)
          else None)"
        by (rule Suc.IH)
      finally show ?thesis
        using True Cons by (cases n) auto
    qed
  qed
qed

lemma ahead_not_chr:
  "run [Todo (Ahead False (Chr P))] (i, pv, cs, cp) =
     (if (case cs of [] \<Rightarrow> False | c # _ \<Rightarrow> P c) then None else Some (i, pv, cs, cp))"
  by (cases cs) (simp_all add: run.simps)

text \<open>Six digits at the start of the rest of a text, with no digit before and after.\<close>

definition sixHere :: "jschar option \<Rightarrow> jsstring \<Rightarrow> bool" where
  "sixHere pv cs \<longleftrightarrow>
     \<not> (case pv of None \<Rightarrow> False | Some c \<Rightarrow> isDigit c) \<and> 6 \<le> length cs
     \<and> list_all isDigit (take 6 cs) \<and> \<not> (case drop 6 cs of [] \<Rightarrow> False | c # _ \<Rightarrow> isDigit c)"

lemma codeRule4_run:
  "run [Todo codeRule4] (i, pv, cs, []) =
     (if sixHere pv cs then Some (i + 6, Some (cs ! 5), drop 6 cs, [(1, i, i + 6)]) else None)"
  by (simp add: sixHere_def codeRule4_def run.simps(5,9,10,12) rep_exact ahead_not_chr)

lemma isolatedSixAt_state:
  "isolatedSixAt t j \<longleftrightarrow> sixHere (if j = 0 then None else Some (t ! (j - 1))) (drop j t)"
proof (cases "j + 6 \<le> length t")
  case False
  then show ?thesis by (auto simp: isolatedSixAt_def sixHere_def)
next
  case True
  have nxt: "(case drop 6 (drop j t) of [] \<Rightarrow> False | c # _ \<Rightarrow> isDigit c)
      \<longleftrightarrow> \<not> (j + 6 = length t \<or> \<not> isDigit (t ! (j + 6)))"
  proof (cases "j + 6 = length t")
    case True
    then show ?thesis by simp
  next
    case False
    with True have lt: "j + 6 < length t" by simp
    have "drop 6 (drop j t) = drop (j + 6) t" by (simp add: add.commute)
    also have "\<dots> = t ! (j + 6) # drop (Suc (j + 6)) t"
      using Cons_nth_drop_Suc [OF lt] by simp
    finally show ?thesis using False by simp
  qed
  show ?thesis
    unfolding sixHere_def nxt using True by (auto simp: isolatedSixAt_def)
qed

lemma codeRule4_at:
  "run [Todo codeRule4] (stateAt t j) =
     (if isolatedSixAt t j then Some (j + 6, Some (t ! (j + 5)), drop (j + 6) t, [(1, j, j + 6)])
      else None)"
proof (cases "isolatedSixAt t j")
  case False
  then have "\<not> sixHere (if j = 0 then None else Some (t ! (j - 1))) (drop j t)"
    using isolatedSixAt_state [of t j] by blast
  with False show ?thesis
    unfolding stateAt_def codeRule4_run by (simp only: if_False simp_thms)
next
  case True
  then have le: "j + 6 \<le> length t" by (simp add: isolatedSixAt_def)
  then have nth: "drop j t ! 5 = t ! (j + 5)" by simp
  have dr: "drop 6 (drop j t) = drop (j + 6) t" by (simp add: add.commute)
  from True have "sixHere (if j = 0 then None else Some (t ! (j - 1))) (drop j t)"
    using isolatedSixAt_state [of t j] by blast
  with True show ?thesis
    unfolding stateAt_def codeRule4_run nth dr by (simp only: if_True simp_thms)
qed

lemma codeRule4_first:
  assumes "isolatedSixAt t i" and "\<forall>j<i. \<not> isolatedSixAt t j"
  shows "group1 codeRule4 t = Some (take 6 (drop i t))"
proof -
  from assms(1) have le: "i \<le> length t" by (simp add: isolatedSixAt_def)
  have "searchFrom codeRule4 (0, (if (0::nat) = 0 then None else Some (t ! (0 - 1))), drop 0 t, [])
      = Some (stateAt t i, (i + 6, Some (t ! (i + 5)), drop (i + 6) t, [(1, i, i + 6)]))"
    using assms le by (intro searchFrom_first) (simp_all add: codeRule4_at)
  then show ?thesis
    by (simp add: group1_def matchGroups_def search_def groupText_def slice_def)
qed

text \<open>The text of the counterexample: the Chinese word for activation code, an eight-digit
  number and a six-digit number.\<close>

definition activationText :: jsstring where
  "activationText = [28608, 27963, 30721] @ js '' 12345678, 123456''"

text \<open>
  C4, as amended. Without an occurrence of the keyword alternation in the subject and in
  the body corpus, the extractor returns the empty string, whatever digits the text holds.
  The extractor of the list preview, on a text without an occurrence of its own keyword
  alternation that holds an isolated run of six digits, returns the first such run.
\<close>

theorem no_keyword_server_empty_client_six:
  "(\<not> test kw (strOr (subject c)) \<and>
    \<not> test kw (sourcesBody R (strOr (text' c)) (strOr (html c))) \<longrightarrow>
      extractVerificationCode R (ArgObject c) = Inr [])
   \<and> (\<not> test keywordsRe t \<and> isolatedSixAt t i \<and> (\<forall>j<i. \<not> isolatedSixAt t j) \<longrightarrow>
        extractCode t = take 6 (drop i t))"
proof (intro conjI impI)
  assume "\<not> test kw (strOr (subject c)) \<and>
    \<not> test kw (sourcesBody R (strOr (text' c)) (strOr (html c)))"
  then show "extractVerificationCode R (ArgObject c) = Inr []"
    by (simp add: extractVerificationCode_def extractFrom_def no_kw_no_candidate)
next
  assume a: "\<not> test keywordsRe t \<and> isolatedSixAt t i \<and> (\<forall>j<i. \<not> isolatedSixAt t j)"
  then have ne: "t \<noteq> []" by (auto simp: isolatedSixAt_def)
  from a have "group1 codeRule4 t = Some (take 6 (drop i t))"
    using codeRule4_first by blast
  with a ne show "extractCode t = take 6 (drop i t)"
    by (simp add: extractCode_def codeRules_need_keywords)
qed

lemmas client_eval = keywordsRe_def optDashSpace_def connector_def isColon_def notAlnum_def
  isDashSep_def codeRule1_def codeRule2_def codeRule3_def codeRule4_def codeRule5_def group1_def
  digitsOfGroup_def normalizeDigits_def extractCode_def

theorem no_keyword_server_empty_client_six_witness:
  "extractVerificationCode exampleRuntime
      (ArgObject \<lparr>subject = Str [], text' = Str (js ''no 123456''), html = Undefined\<rparr>) = Inr []
   \<and> extractCode (js ''no 123456'') = js ''123456''"
proof -
  have s: "\<not> test kw []"
    by (simp add: pattern_eval regex_eval)
  have b: "sourcesBody exampleRuntime (js ''no 123456'') [] = js ''no 123456''"
    by (simp add: strip_eval regex_eval string_eval)
  have k: "\<not> test kw (js ''no 123456'')"
    by (simp add: pattern_eval regex_eval)
  have ck: "\<not> test keywordsRe (js ''no 123456'')"
    by (simp add: client_eval regex_eval)
  have i: "isolatedSixAt (js ''no 123456'') 3"
    by (simp add: isolatedSixAt_def js_def isDigit_def)
  have f: "\<forall>j<3. \<not> isolatedSixAt (js ''no 123456'') j"
  proof (intro allI impI)
    fix j :: nat
    assume "j < 3"
    then consider "j = 0" | "j = 1" | "j = 2" by linarith
    then show "\<not> isolatedSixAt (js ''no 123456'') j"
      by cases (simp_all add: isolatedSixAt_def js_def isDigit_def)
  qed
  have t: "take 6 (drop 3 (js ''no 123456'')) = js ''123456''"
    by (simp add: js_def)
  from no_keyword_server_empty_client_six [of
      "\<lparr>subject = Str [], text' = Str (js ''no 123456''), html = Undefined\<rparr>"
      exampleRuntime "js ''no 123456''" 3] s b k ck i f
  show ?thesis
    unfolding t [symmetric] by (simp add: strOr_def)
qed

text \<open>
  C4 as the claim states it fails on a text that is free of the server's keywords but holds
  a keyword of the list preview only: after the Chinese word for activation code the first
  rule of \<open>extractCode\<close> returns the eight digits that follow, not the isolated run of six
  digits further on. The server returns the empty string on the same text.
\<close>

theorem extractCode_activation_counterexample:
  "\<not> test kw activationText
   \<and> isolatedSixAt activationText 14
   \<and> take 6 (drop 14 activationText) = js ''123456''
   \<and> extractCode activationText = js ''12345678''
   \<and> extractVerificationCode exampleRuntime
        (ArgObject \<lparr>subject = Str [], text' = Str activationText, html = Str []\<rparr>) = Inr []"
proof -
  have k: "\<not> test kw activationText"
    by (simp add: activationText_def pattern_eval regex_eval)
  have s: "\<not> test kw []"
    by (simp add: pattern_eval regex_eval)
  have i: "isolatedSixAt activationText 14"
    by (simp add: activationText_def isolatedSixAt_def js_def isDigit_def)
  have t: "take 6 (drop 14 activationText) = js ''123456''"
    by (simp add: activationText_def js_def)
  have e: "extractCode activationText = js ''12345678''"
    by (simp add: activationText_def client_eval regex_eval)
  have b: "sourcesBody exampleRuntime activationText [] = activationText"
    by (simp add: activationText_def strip_eval regex_eval string_eval)
  have v: "extractVerificationCode exampleRuntime
        (ArgObject \<lparr>subject = Str [], text' = Str activationText, html = Str []\<rparr>) = Inr []"
    using s k by (simp add: extractVerificationCode_def extractFrom_def strOr_def b
        no_kw_no_candidate)
  from k i t e v show ?thesis by simp
qed

section \<open>Properties of the entity resolver\<close>

subsection \<open>No exception leaves the parser\<close>

lemma try_catch_returns: "\<exists>v. try_catch body (\<lambda>_. Inr x) = Inr v"
  by (cases body) (simp_all add: try_catch_def)

lemma decodeQuotedPrintable_returns: "\<exists>v. decodeQuotedPrintable R input = Inr v"
  by (simp add: decodeQuotedPrintable_def Let_def try_catch_returns)

lemma decodeBody_returns: "\<exists>v. decodeBody R body enc = Inr v"
  by (simp add: decodeBody_def try_catch_returns decodeQuotedPrintable_returns)

lemma decodeBodyWithCharset_returns: "\<exists>v. decodeBodyWithCharset R body enc ct = Inr v"
proof -
  obtain d where d: "decodeBody R body enc = Inr d"
    using decodeBody_returns by blast
  show ?thesis
    by (simp add: decodeBodyWithCharset_def d Let_def try_catch_returns)
qed

lemma leafEntity_returns: "\<exists>r. leafEntity R ct enc body = Inr r"
proof -
  obtain d where d: "decodeBodyWithCharset R body enc ct = Inr d"
    using decodeBodyWithCharset_returns by blast
  show ?thesis
    by (simp add: leafEntity_def d Let_def)
qed

lemma parser_returns:
  "\<exists>r. parseEmailBody R raw = Inr r"
  "\<exists>r. parseEntity R hs body = Inr r"
  "\<exists>r. parseParts R parts acc = Inr r"
proof (induction R raw and R hs body and R parts acc
    rule: parseEmailBody_parseEntity_parseParts.induct)
  case (1 R raw)
  then show ?case
    by (cases "splitHeadersAndBody R raw") (auto simp: parseEmailBody.simps)
next
  case (2 R hs body)
  then show ?case
    using leafEntity_returns
    by (subst parseEntity.simps) (auto split: sum.splits)
next
  case (3 R acc)
  show ?case by (simp add: parseParts.simps)
next
  case (4 R part parts acc)
  obtain ph pb where s: "splitHeadersAndBody R part = (ph, pb)"
    by (cases "splitHeadersAndBody R part")
  note ih = 4 [OF s [symmetric]]
  define pct where "pct = toLowerCase R (hget ph (js ''content-type''))"
  consider (multi) "startsWith pct (js ''multipart/'')"
    | (msg) "\<not> startsWith pct (js ''multipart/'')" "startsWith pct (js ''message/rfc822'')"
    | (skip) "\<not> startsWith pct (js ''multipart/'')" "\<not> startsWith pct (js ''message/rfc822'')"
        "includesStr pct (js ''rfc822-headers'')"
    | (leaf) "\<not> startsWith pct (js ''multipart/'')" "\<not> startsWith pct (js ''message/rfc822'')"
        "\<not> includesStr pct (js ''rfc822-headers'')"
    by blast
  then show ?case
  proof cases
    case multi
    from ih(1) multi obtain nested where n: "parseEntity R ph pb = Inr nested"
      unfolding pct_def by blast
    show ?thesis
    proof (cases "textOf (mergeInto acc nested) \<noteq> [] \<and> htmlOf (mergeInto acc nested) \<noteq> []")
      case True
      with multi n s show ?thesis
        unfolding pct_def by (subst parseParts.simps) simp
    next
      case False
      from ih(2) [OF multi [unfolded pct_def] n False]
      obtain r where "parseParts R parts (mergeInto acc nested) = Inr r" by blast
      with False multi n s show ?thesis
        unfolding pct_def by (subst parseParts.simps) simp
    qed
  next
    case msg
    from ih(3) msg obtain nested where n: "parseEmailBody R pb = Inr nested"
      unfolding pct_def by blast
    show ?thesis
    proof (cases "textOf (mergeInto acc nested) \<noteq> [] \<and> htmlOf (mergeInto acc nested) \<noteq> []")
      case True
      with msg n s show ?thesis
        unfolding pct_def by (subst parseParts.simps) simp
    next
      case False
      from ih(4) [OF msg [unfolded pct_def] n False]
      obtain r where "parseParts R parts (mergeInto acc nested) = Inr r" by blast
      with False msg n s show ?thesis
        unfolding pct_def by (subst parseParts.simps) simp
    qed
  next
    case skip
    from ih(5) [OF skip [unfolded pct_def]]
    obtain r where "parseParts R parts acc = Inr r" by blast
    with skip s show ?thesis
      unfolding pct_def by (subst parseParts.simps) simp
  next
    case leaf
    from ih(6) leaf obtain nested where n: "parseEntity R ph pb = Inr nested"
      unfolding pct_def by blast
    show ?thesis
    proof (cases "textOf (mergeInto acc nested) \<noteq> [] \<and> htmlOf (mergeInto acc nested) \<noteq> []")
      case True
      with leaf n s show ?thesis
        unfolding pct_def by (subst parseParts.simps) simp
    next
      case False
      from ih(7) [OF leaf [unfolded pct_def] n False]
      obtain r where "parseParts R parts (mergeInto acc nested) = Inr r" by blast
      with False leaf n s show ?thesis
        unfolding pct_def by (subst parseParts.simps) simp
    qed
  qed
qed







section \<open>The merge of the parts of a multipart\<close>

text \<open>
  What one part of a multipart gives the loop of \<open>parseEntity\<close>: the result of the nested
  call on it, and two empty strings for a part the loop skips (\<open>rfc822-headers\<close>).
\<close>

definition partYield :: "runtime \<Rightarrow> jsstring \<Rightarrow> parsed" where
  "partYield R part =
     (case splitHeadersAndBody R part of
        (ph, pb) \<Rightarrow>
          (if startsWith (toLowerCase R (hget ph (js ''content-type''))) (js ''multipart/'') then
             (case parseEntity R ph pb of Inl e \<Rightarrow> emptyParsed | Inr nested \<Rightarrow> nested)
           else if startsWith (toLowerCase R (hget ph (js ''content-type''))) (js ''message/rfc822'') then
             (case parseEmailBody R pb of Inl e \<Rightarrow> emptyParsed | Inr nested \<Rightarrow> nested)
           else if includesStr (toLowerCase R (hget ph (js ''content-type''))) (js ''rfc822-headers'') then
             emptyParsed
           else
             (case parseEntity R ph pb of Inl e \<Rightarrow> emptyParsed | Inr res \<Rightarrow> res)))"

text \<open>The first string of a list that is not empty, the empty string when there is none.\<close>

fun firstNonEmpty :: "jsstring list \<Rightarrow> jsstring" where
  "firstNonEmpty [] = []"
| "firstNonEmpty (x # xs) = (if x \<noteq> [] then x else firstNonEmpty xs)"

definition partTexts :: "runtime \<Rightarrow> jsstring list \<Rightarrow> jsstring list" where
  "partTexts R parts = map (\<lambda>p. textOf (partYield R p)) parts"

definition partHtmls :: "runtime \<Rightarrow> jsstring list \<Rightarrow> jsstring list" where
  "partHtmls R parts = map (\<lambda>p. htmlOf (partYield R p)) parts"

lemma mergeInto_empty: "mergeInto acc emptyParsed = acc"
  by (simp add: mergeInto_def emptyParsed_def)

lemma mergeInto_full:
  "textOf acc \<noteq> [] \<Longrightarrow> htmlOf acc \<noteq> [] \<Longrightarrow> mergeInto acc nested = acc"
  by (simp add: mergeInto_def)

lemma foldl_mergeInto_full:
  "textOf acc \<noteq> [] \<Longrightarrow> htmlOf acc \<noteq> [] \<Longrightarrow> foldl mergeInto acc ys = acc"
  by (induction ys) (simp_all add: mergeInto_full)

lemma parseParts_Cons:
  "parseParts R (part # parts) acc =
     (if includesStr (toLowerCase R (hget (fst (splitHeadersAndBody R part)) (js ''content-type'')))
           (js ''rfc822-headers'')
         \<and> \<not> startsWith (toLowerCase R (hget (fst (splitHeadersAndBody R part)) (js ''content-type'')))
               (js ''multipart/'')
         \<and> \<not> startsWith (toLowerCase R (hget (fst (splitHeadersAndBody R part)) (js ''content-type'')))
               (js ''message/rfc822'')
      then parseParts R parts acc
      else if textOf (mergeInto acc (partYield R part)) \<noteq> []
            \<and> htmlOf (mergeInto acc (partYield R part)) \<noteq> []
      then Inr (mergeInto acc (partYield R part))
      else parseParts R parts (mergeInto acc (partYield R part)))"
proof -
  obtain ph pb where s: "splitHeadersAndBody R part = (ph, pb)"
    by (cases "splitHeadersAndBody R part")
  obtain e where e: "parseEntity R ph pb = Inr e"
    using parser_returns(2) by blast
  obtain m where m: "parseEmailBody R pb = Inr m"
    using parser_returns(1) by blast
  show ?thesis
    by (subst parseParts.simps) (simp add: s e m partYield_def)
qed

lemma parseParts_foldl:
  "parseParts R parts acc = Inr (foldl mergeInto acc (map (partYield R) parts))"
proof (induction parts arbitrary: acc)
  case Nil
  show ?case by (simp add: parseParts.simps)
next
  case (Cons part parts)
  have skip: "includesStr (toLowerCase R (hget (fst (splitHeadersAndBody R part)) (js ''content-type'')))
        (js ''rfc822-headers'')
      \<and> \<not> startsWith (toLowerCase R (hget (fst (splitHeadersAndBody R part)) (js ''content-type'')))
            (js ''multipart/'')
      \<and> \<not> startsWith (toLowerCase R (hget (fst (splitHeadersAndBody R part)) (js ''content-type'')))
            (js ''message/rfc822'')
      \<Longrightarrow> partYield R part = emptyParsed"
    by (cases "splitHeadersAndBody R part") (simp add: partYield_def)
  show ?case
    by (subst parseParts_Cons) (auto simp: Cons.IH skip mergeInto_empty foldl_mergeInto_full)
qed

lemma textOf_foldl_mergeInto:
  "textOf (foldl mergeInto acc ys)
     = (if textOf acc \<noteq> [] then textOf acc else firstNonEmpty (map textOf ys))"
  by (induction ys arbitrary: acc) (simp_all add: mergeInto_def)

lemma htmlOf_foldl_mergeInto:
  "htmlOf (foldl mergeInto acc ys)
     = (if htmlOf acc \<noteq> [] then htmlOf acc else firstNonEmpty (map htmlOf ys))"
  by (induction ys arbitrary: acc) (simp_all add: mergeInto_def)

lemma firstNonEmpty_append:
  "firstNonEmpty xs \<noteq> [] \<Longrightarrow> firstNonEmpty (xs @ ys) = firstNonEmpty xs"
  by (induction xs) (auto split: if_splits)

lemma parseParts_first:
  "parseParts R parts emptyParsed
     = Inr \<lparr>textOf = firstNonEmpty (partTexts R parts), htmlOf = firstNonEmpty (partHtmls R parts)\<rparr>"
proof -
  have "textOf (foldl mergeInto emptyParsed (map (partYield R) parts)) = firstNonEmpty (partTexts R parts)"
    by (simp add: textOf_foldl_mergeInto emptyParsed_def partTexts_def comp_def)
  moreover have "htmlOf (foldl mergeInto emptyParsed (map (partYield R) parts))
      = firstNonEmpty (partHtmls R parts)"
    by (simp add: htmlOf_foldl_mergeInto emptyParsed_def partHtmls_def comp_def)
  ultimately show ?thesis
    by (simp add: parseParts_foldl)
qed


text \<open>
  C2. A multipart entity with a boundary: the text of the result is the text of the first
  part, in the order of the body, whose result has a text that is not empty, and the HTML
  is the HTML of the first part whose result has an HTML that is not empty, when there is such a part
  (a part that is itself a multipart or a message counts with the result of the nested
  call). A later part overwrites neither field, and the parts after the one at which both
  fields are set change nothing: the loop over a list that goes on returns what it returns
  for the parts up to there.
\<close>

theorem multipart_first_found_wins:
  assumes "startsWith (toLowerCase R (hget hs (js ''content-type''))) (js ''multipart/'')"
    and "getBoundary (hget hs (js ''content-type'')) = boundary"
    and "boundary \<noteq> []"
  shows "\<exists>r. parseEntity R hs body = Inr r
      \<and> textOf r = firstNonEmpty (partTexts R (splitMultipart body boundary))
      \<and> (firstNonEmpty (partHtmls R (splitMultipart body boundary)) \<noteq> [] \<longrightarrow>
           htmlOf r = firstNonEmpty (partHtmls R (splitMultipart body boundary)))
      \<and> (firstNonEmpty (partTexts R ps) \<noteq> [] \<and> firstNonEmpty (partHtmls R ps) \<noteq> [] \<longrightarrow>
           parseParts R (ps @ qs) emptyParsed = parseParts R ps emptyParsed)"
proof -
  have "parseEntity R hs body
      = Inr (finishMultipart R body
          \<lparr>textOf = firstNonEmpty (partTexts R (splitMultipart body boundary)),
           htmlOf = firstNonEmpty (partHtmls R (splitMultipart body boundary))\<rparr>)"
    using assms by (subst parseEntity.simps) (simp add: parseParts_first)
  moreover have "firstNonEmpty (partTexts R ps) \<noteq> [] \<and> firstNonEmpty (partHtmls R ps) \<noteq> [] \<longrightarrow>
      parseParts R (ps @ qs) emptyParsed = parseParts R ps emptyParsed"
    by (simp add: parseParts_first partTexts_def partHtmls_def firstNonEmpty_append)
  ultimately show ?thesis
    by (simp add: finishMultipart_def Let_def)
qed

text \<open>
  A \<open>multipart/alternative\<close> of four parts: two \<open>text/plain\<close> parts, then two \<open>text/html\<close>
  parts. The text is the body of the first part and the HTML the body of the third.
\<close>

definition fourParts :: jsstring where
  "fourParts = js ''--x'' @ [10] @ js ''Content-Type: text/plain'' @ [10, 10] @ js ''a'' @ [10]
     @ js ''--x'' @ [10] @ js ''Content-Type: text/plain'' @ [10, 10] @ js ''b'' @ [10]
     @ js ''--x'' @ [10] @ js ''Content-Type: text/html'' @ [10, 10] @ js ''<p>c</p>'' @ [10]
     @ js ''--x'' @ [10] @ js ''Content-Type: text/html'' @ [10, 10] @ js ''<p>d</p>'' @ [10]
     @ js ''--x--''"

lemma plain_part:
  assumes t: "indexOf t [13, 10, 13, 10] = None"
  shows "partYield exampleRuntime (js ''Content-Type: text/plain'' @ [10, 10] @ t)
     = \<lparr>textOf = t, htmlOf = []\<rparr>"
proof -
  have m: "matchHeaderLine (js ''Content-Type: text/plain'') = Some (js ''Content-Type'', js ''text/plain'')"
    by (simp add: matchHeaderLine_def headerLineRe_def regex_eval)
  have s: "splitHeadersAndBody exampleRuntime (js ''Content-Type: text/plain'' @ [10, 10] @ t)
      = (Map.empty(js ''content-type'' \<mapsto> js ''text/plain''), t)"
    using m t
    by (simp add: splitHeadersAndBody_def parseHeaders_def hstore_def string_eval js_def
        slice_def lowerAscii_def isSpace_def)
  have cs: "charsetOf exampleRuntime (js ''text/plain'') = js ''utf-8''"
    by (simp add: charsetOf_def charsetRe_def regex_eval)
  have d: "decodeBodyWithCharset exampleRuntime t [] (js ''text/plain'') = Inr t"
    using cs by (simp add: decodeBodyWithCharset_def decodeBody_def string_eval js_def)
  have l: "leafEntity exampleRuntime (js ''text/plain'') [] t = Inr \<lparr>textOf = t, htmlOf = []\<rparr>"
    using d by (simp add: leafEntity_def Let_def includesStr_def startsWith_def js_def)
  have e: "parseEntity exampleRuntime (Map.empty(js ''content-type'' \<mapsto> js ''text/plain'')) t
      = Inr \<lparr>textOf = t, htmlOf = []\<rparr>"
    using l by (subst parseEntity.simps) (simp add: hget_def string_eval js_def lowerAscii_def)
  show ?thesis
    using s e by (simp add: partYield_def hget_def string_eval js_def lowerAscii_def)
qed

lemma html_part:
  assumes t: "indexOf t [13, 10, 13, 10] = None"
  shows "partYield exampleRuntime (js ''Content-Type: text/html'' @ [10, 10] @ t)
     = \<lparr>textOf = [], htmlOf = t\<rparr>"
proof -
  have m: "matchHeaderLine (js ''Content-Type: text/html'') = Some (js ''Content-Type'', js ''text/html'')"
    by (simp add: matchHeaderLine_def headerLineRe_def regex_eval)
  have s: "splitHeadersAndBody exampleRuntime (js ''Content-Type: text/html'' @ [10, 10] @ t)
      = (Map.empty(js ''content-type'' \<mapsto> js ''text/html''), t)"
    using m t
    by (simp add: splitHeadersAndBody_def parseHeaders_def hstore_def string_eval js_def
        slice_def lowerAscii_def isSpace_def)
  have cs: "charsetOf exampleRuntime (js ''text/html'') = js ''utf-8''"
    by (simp add: charsetOf_def charsetRe_def regex_eval)
  have d: "decodeBodyWithCharset exampleRuntime t [] (js ''text/html'') = Inr t"
    using cs by (simp add: decodeBodyWithCharset_def decodeBody_def string_eval js_def)
  have l: "leafEntity exampleRuntime (js ''text/html'') [] t = Inr \<lparr>textOf = [], htmlOf = t\<rparr>"
    using d by (simp add: leafEntity_def Let_def includesStr_def startsWith_def js_def)
  have e: "parseEntity exampleRuntime (Map.empty(js ''content-type'' \<mapsto> js ''text/html'')) t
      = Inr \<lparr>textOf = [], htmlOf = t\<rparr>"
    using l by (subst parseEntity.simps) (simp add: hget_def string_eval js_def lowerAscii_def)
  show ?thesis
    using s e by (simp add: partYield_def hget_def string_eval js_def lowerAscii_def)
qed


theorem multipart_first_found_wins_witness:
  "parseEntity exampleRuntime (Map.empty(js ''content-type'' \<mapsto> js ''multipart/alternative; boundary=x''))
      fourParts
     = Inr \<lparr>textOf = js ''a'', htmlOf = js ''<p>c</p>''\<rparr>"
proof -
  let ?hs = "Map.empty(js ''content-type'' \<mapsto> js ''multipart/alternative; boundary=x'')"
  let ?p1 = "js ''Content-Type: text/plain'' @ [10, 10] @ js ''a''"
  let ?p2 = "js ''Content-Type: text/plain'' @ [10, 10] @ js ''b''"
  let ?p3 = "js ''Content-Type: text/html'' @ [10, 10] @ js ''<p>c</p>''"
  let ?p4 = "js ''Content-Type: text/html'' @ [10, 10] @ js ''<p>d</p>''"
  have m: "startsWith (toLowerCase exampleRuntime (hget ?hs (js ''content-type''))) (js ''multipart/'')"
    by (simp add: hget_def string_eval js_def lowerAscii_def)
  have b: "getBoundary (hget ?hs (js ''content-type'')) = js ''x''"
    by (simp add: hget_def getBoundary_def boundaryRe_def regex_eval string_eval)
  have ne: "js ''x'' \<noteq> []"
    by (simp add: js_def)
  have s: "splitMultipart fourParts (js ''x'') = [?p1, ?p2, ?p3] @ [?p4]"
    by (simp add: splitMultipart_def fourParts_def string_eval js_def isSpace_def)
  have y1: "partYield exampleRuntime ?p1 = \<lparr>textOf = js ''a'', htmlOf = []\<rparr>"
    by (rule plain_part) (simp add: js_def startsWith_def)
  have y2: "partYield exampleRuntime ?p2 = \<lparr>textOf = js ''b'', htmlOf = []\<rparr>"
    by (rule plain_part) (simp add: js_def startsWith_def)
  have y3: "partYield exampleRuntime ?p3 = \<lparr>textOf = [], htmlOf = js ''<p>c</p>''\<rparr>"
    by (rule html_part) (simp add: js_def startsWith_def)
  have y4: "partYield exampleRuntime ?p4 = \<lparr>textOf = [], htmlOf = js ''<p>d</p>''\<rparr>"
    by (rule html_part) (simp add: js_def startsWith_def)
  have a: "js ''a'' \<noteq> []" and c: "js ''<p>c</p>'' \<noteq> []"
    by (simp_all add: js_def)
  have t: "firstNonEmpty (partTexts exampleRuntime ([?p1, ?p2, ?p3] @ [?p4])) = js ''a''"
    using a y1 y2 y3 y4 by (simp add: partTexts_def)
  have h: "firstNonEmpty (partHtmls exampleRuntime ([?p1, ?p2, ?p3] @ [?p4])) = js ''<p>c</p>''"
    using c y1 y2 y3 y4 by (simp add: partHtmls_def)
  from multipart_first_found_wins [OF m b ne, of fourParts "[?p1, ?p2, ?p3]" "[?p4]"]
  obtain r where r: "parseEntity exampleRuntime ?hs fourParts = Inr r"
    and rt: "textOf r = js ''a''" and rh: "htmlOf r = js ''<p>c</p>''"
    unfolding s t h using c by blast
  from rt rh have "r = \<lparr>textOf = js ''a'', htmlOf = js ''<p>c</p>''\<rparr>"
    by (cases r) simp
  with r show ?thesis by simp
qed

end
